theory Spec2Isabelle
  imports Main "HOL-Library.Word" "HOL-Library.Multiset"
begin

unbundle bit_operations_syntax

section \<open>The TriCore port layer of the kernel (port.c)\<close>

text \<open>
  The development embeds the functions of
  \<^verbatim>\<open>src/os/FreeRTOS-Kernel-10.4.3/portable/TriCore/port.c\<close>
  as HOL functions over an explicit machine state. \<^verbatim>\<open>unsigned long\<close> and every
  pointer are 32-bit words; a pointer \<^verbatim>\<open>unsigned long *p\<close> is the byte address of a
  word, and \<^verbatim>\<open>p[i]\<close> is the word at byte address \<^verbatim>\<open>p + 4 * i\<close>.
\<close>

subsection \<open>Machine state\<close>

type_synonym word32 = "32 word"

text \<open>The core special function registers that port.c reads with mfcr and writes with mtcr.\<close>

datatype csfr_id =
    TRICORE_CPU_FCX
  | TRICORE_CPU_PCXI
  | TRICORE_CPU_ICR
  | TRICORE_CPU_PSW
  | TRICORE_CPU_SYSCON
  | TRICORE_CPU_CORE_ID

text \<open>
  Calls that leave port.c for the generic kernel are recorded in a call log, in the order
  they happen: \<open>SwitchContext t\<close> is a call of vTaskSwitchContext that made \<open>t\<close> the current
  task control block, \<open>IncrementTick icr\<close> is a call of xTaskIncrementTick made while the
  interrupt control register held \<open>icr\<close>.
\<close>

datatype kernel_call = SwitchContext word32 | IncrementTick word32

text \<open>The ways in which control leaves a function without returning to its caller.\<close>

datatype trap = ContextListDepletion | AssertFailed | NullPointer

text \<open>
  The state holds the core registers, the word memory, the global interrupt enable that
  \<^verbatim>\<open>TriCore__disable\<close> and \<^verbatim>\<open>TriCore__enable\<close> clear and set, the depth of critical
  sections, the kernel's table \<^verbatim>\<open>pxCurrentTCBs\<close> (indexed by the core identifier), the
  compare values of the timer modules (by module and comparator), the comparator chosen in
  \<^verbatim>\<open>g_STMConf\<close> for each core, the tick period \<^verbatim>\<open>g_ticksFor1ms\<close>, the kernel's tick count
  and the call log. The kernel's table and the timer are kept apart from the word memory:
  no context record or control block overlaps them.
\<close>

record kstate =
  csfr :: "csfr_id \<Rightarrow> word32"
  mem :: "word32 \<Rightarrow> word32"
  ie :: bool
  uxCriticalNesting :: nat
  pxCurrentTCBs :: "word32 \<Rightarrow> word32"
  stm_CMPVAL :: "nat \<Rightarrow> nat \<Rightarrow> word32"
  g_STMConf_comparator :: "nat \<Rightarrow> nat"
  g_ticksFor1ms :: word32
  xTickCount :: word32
  calls :: "kernel_call list"

text \<open>
  What port.c takes from headers and from the hardware, none of it under src/:
  the two CSA link conversions and the CCPN mask of portmacro.h, the constants of
  FreeRTOSConfig.h, the instructions SVLCX and RSLCX behind the intrinsics
  \<^verbatim>\<open>TriCore__svlcx\<close> and \<^verbatim>\<open>TriCore__rslcx\<close>, the choice made by the generic kernel's
  vTaskSwitchContext and the answer of its xTaskIncrementTick. They are parameters of
  every function below.
\<close>

record port_cfg =
  portCSA_TO_ADDRESS :: "word32 \<Rightarrow> word32"
  portADDRESS_TO_CSA :: "word32 \<Rightarrow> word32"
  portCCPN_MASK :: word32
  configMAX_SYSCALL_INTERRUPT_PRIORITY :: word32
  portSYSCALL_TASK_YIELD :: int
  TriCore_svlcx :: "kstate \<Rightarrow> trap + kstate"
  TriCore_rslcx :: "kstate \<Rightarrow> trap + kstate"
  next_task :: "kstate \<Rightarrow> word32"
  switch_due :: "kstate \<Rightarrow> word32"

subsection \<open>Constants of port.c\<close>

definition portSYSTEM_PROGRAM_STATUS_WORD :: word32 where
  "portSYSTEM_PROGRAM_STATUS_WORD = 0x000008FF"

definition portINITIAL_PCXI_UPPER_CONTEXT_WORD :: word32 where
  "portINITIAL_PCXI_UPPER_CONTEXT_WORD = 0x00300000"

definition portCSA_FCX_MASK :: word32 where
  "portCSA_FCX_MASK = 0x000FFFFF"

definition portNUM_WORDS_IN_CSA :: nat where
  "portNUM_WORDS_IN_CSA = 16"

subsection \<open>Registers, memory and interrupt enable\<close>

definition TriCore_mfcr :: "kstate \<Rightarrow> csfr_id \<Rightarrow> word32" where
  "TriCore_mfcr s r = csfr s r"

definition TriCore_mtcr :: "kstate \<Rightarrow> csfr_id \<Rightarrow> word32 \<Rightarrow> kstate" where
  "TriCore_mtcr s r v = s\<lparr>csfr := (csfr s)(r := v)\<rparr>"

definition TriCore_disable :: "kstate \<Rightarrow> kstate" where
  "TriCore_disable s = s\<lparr>ie := False\<rparr>"

definition TriCore_enable :: "kstate \<Rightarrow> kstate" where
  "TriCore_enable s = s\<lparr>ie := True\<rparr>"

text \<open>The byte address of \<^verbatim>\<open>p[i]\<close> for \<^verbatim>\<open>unsigned long *p\<close>.\<close>

definition word_at :: "word32 \<Rightarrow> nat \<Rightarrow> word32" where
  "word_at p i = p + 4 * of_nat i"

definition load :: "kstate \<Rightarrow> word32 \<Rightarrow> nat \<Rightarrow> word32" where
  "load s p i = mem s (word_at p i)"

definition store :: "kstate \<Rightarrow> word32 \<Rightarrow> nat \<Rightarrow> word32 \<Rightarrow> kstate" where
  "store s p i v = s\<lparr>mem := (mem s)(word_at p i := v)\<rparr>"

text \<open>\<^verbatim>\<open>memset( p, 0, n * sizeof( unsigned long ) )\<close>: the words \<^verbatim>\<open>p[0] .. p[n-1]\<close> become zero.\<close>

primrec memset_zero :: "kstate \<Rightarrow> word32 \<Rightarrow> nat \<Rightarrow> kstate" where
  "memset_zero s p 0 = s"
| "memset_zero s p (Suc n) = store (memset_zero s p n) p n 0"

text \<open>
  Modelled from the spec: portENTER_CRITICAL and portEXIT_CRITICAL are macros of
  portmacro.h, which is not under src/. The spec has the pool manipulation run
  "atomically (interrupts masked on the current core)"; in a sequential run this leaves
  registers and memory as they are, and the model keeps the depth of the nesting.
\<close>

definition portENTER_CRITICAL :: "kstate \<Rightarrow> kstate" where
  "portENTER_CRITICAL s = s\<lparr>uxCriticalNesting := uxCriticalNesting s + 1\<rparr>"

definition portEXIT_CRITICAL :: "kstate \<Rightarrow> kstate" where
  "portEXIT_CRITICAL s = s\<lparr>uxCriticalNesting := uxCriticalNesting s - 1\<rparr>"

subsection \<open>pxPortInitialiseStack\<close>

text \<open>
  The memory barriers (dsync, isync) do nothing in a sequential run and are left out.
  When two CSAs cannot be reserved the source executes SVLCX; if that instruction traps,
  the function ends there, and if it does not, the source goes on with the pointers it
  has, which the model does as well.
\<close>

definition pxPortInitialiseStack ::
  "port_cfg \<Rightarrow> kstate \<Rightarrow> word32 \<Rightarrow> word32 \<Rightarrow> word32 \<Rightarrow> trap + (word32 \<times> kstate)" where
  "pxPortInitialiseStack cfg s pxTopOfStack pxCode pvParameters =
    (let s1 = portENTER_CRITICAL s;
         pulLowerCSA = portCSA_TO_ADDRESS cfg (TriCore_mfcr s1 TRICORE_CPU_FCX);
         pulUpperCSA = (if pulLowerCSA \<noteq> 0
                        then portCSA_TO_ADDRESS cfg (load s1 pulLowerCSA 0) else 0);
         reserved =
           (if pulLowerCSA \<noteq> 0 \<and> pulUpperCSA \<noteq> 0
            then Inr (TriCore_enable
                   (TriCore_mtcr (TriCore_disable s1) TRICORE_CPU_FCX (load s1 pulUpperCSA 0)))
            else TriCore_svlcx cfg s1)
     in case reserved of
          Inl t \<Rightarrow> Inl t
        | Inr s2 \<Rightarrow>
           (let s3 = portEXIT_CRITICAL s2;
                s4 = memset_zero s3 pulUpperCSA portNUM_WORDS_IN_CSA;
                s5 = store s4 pulUpperCSA 2 pxTopOfStack;
                s6 = store s5 pulUpperCSA 1 portSYSTEM_PROGRAM_STATUS_WORD;
                s7 = memset_zero s6 pulLowerCSA portNUM_WORDS_IN_CSA;
                s8 = store s7 pulLowerCSA 8 pvParameters;
                s9 = store s8 pulLowerCSA 1 pxCode;
                s10 = store s9 pulLowerCSA 0
                        (portINITIAL_PCXI_UPPER_CONTEXT_WORD OR portADDRESS_TO_CSA cfg pulUpperCSA)
            in Inr (portADDRESS_TO_CSA cfg pulLowerCSA, s10)))"

subsection \<open>The switch: prvYield and its entry points\<close>

text \<open>
  \<^verbatim>\<open>pxCurrentTCB\<close> is the macro
  \<^verbatim>\<open>((unsigned long *)pxCurrentTCBs[__mfcr(TRICORE_CPU_CORE_ID)])\<close>: the address of the
  current task control block, whose first word is the task's saved-context field.
\<close>

definition pxCurrentTCB :: "kstate \<Rightarrow> word32" where
  "pxCurrentTCB s = pxCurrentTCBs s (TriCore_mfcr s TRICORE_CPU_CORE_ID)"

text \<open>
  Modelled from the spec: vTaskSwitchContext is a function of the generic kernel
  (tasks.c, not under src/): a "no-argument call that updates a global current task
  indirection to point at the next task to run", which changes "only which task's
  saved-context handle becomes current". The task it picks is the parameter \<open>next_task\<close>;
  the call is entered in the call log.
\<close>

definition vTaskSwitchContext :: "port_cfg \<Rightarrow> kstate \<Rightarrow> kstate" where
  "vTaskSwitchContext cfg s =
     s\<lparr>pxCurrentTCBs := (pxCurrentTCBs s)(TriCore_mfcr s TRICORE_CPU_CORE_ID := next_task cfg s),
       calls := calls s @ [SwitchContext (next_task cfg s)]\<rparr>"

definition prvYield :: "port_cfg \<Rightarrow> kstate \<Rightarrow> kstate" where
  "prvYield cfg s =
    (let s1 = TriCore_disable s;
         xUpperCSA = TriCore_mfcr s1 TRICORE_CPU_PCXI;
         pxUpperCSA = portCSA_TO_ADDRESS cfg xUpperCSA;
         s2 = store s1 (pxCurrentTCB s1) 0 (load s1 pxUpperCSA 0);
         s3 = vTaskSwitchContext cfg s2;
         s4 = store s3 pxUpperCSA 0 (load s3 (pxCurrentTCB s3) 0)
     in TriCore_enable s4)"

text \<open>
  Modelled from the spec: xTaskIncrementTick is a function of the generic kernel
  (tasks.c, not under src/): a "no-argument call returning a boolean switch due", which
  "advances logical time". Its answer is the parameter \<open>switch_due\<close>; the call is entered
  in the call log together with the value the interrupt control register has at that
  moment.
\<close>

definition xTaskIncrementTick :: "port_cfg \<Rightarrow> kstate \<Rightarrow> word32 \<times> kstate" where
  "xTaskIncrementTick cfg s =
     (switch_due cfg s,
      s\<lparr>xTickCount := xTickCount s + 1,
        calls := calls s @ [IncrementTick (TriCore_mfcr s TRICORE_CPU_ICR)]\<rparr>)"

definition uxPortSetInterruptMaskFromISR :: "port_cfg \<Rightarrow> kstate \<Rightarrow> word32 \<times> kstate" where
  "uxPortSetInterruptMaskFromISR cfg s =
    (let s1 = TriCore_disable s;
         uxReturn = TriCore_mfcr s1 TRICORE_CPU_ICR;
         s2 = TriCore_mtcr s1 TRICORE_CPU_ICR
                ((uxReturn AND NOT (portCCPN_MASK cfg)) OR configMAX_SYSCALL_INTERRUPT_PRIORITY cfg);
         s3 = TriCore_enable s2
     in (uxReturn AND portCCPN_MASK cfg, s3))"

text \<open>
  Modelled from the spec: portCLEAR_INTERRUPT_MASK_FROM_ISR is a macro of portmacro.h,
  which is not under src/. The spec's step is "(c) unmask": the current-priority field of
  the interrupt control register goes back to the value saved when the mask was raised.
\<close>

definition portCLEAR_INTERRUPT_MASK_FROM_ISR :: "port_cfg \<Rightarrow> kstate \<Rightarrow> word32 \<Rightarrow> kstate" where
  "portCLEAR_INTERRUPT_MASK_FROM_ISR cfg s ulSavedMaskValue =
     TriCore_mtcr s TRICORE_CPU_ICR
       ((TriCore_mfcr s TRICORE_CPU_ICR AND NOT (portCCPN_MASK cfg)) OR ulSavedMaskValue)"

text \<open>\<^verbatim>\<open>pdFALSE\<close> is 0.\<close>

definition vPortSystemTickHandler :: "port_cfg \<Rightarrow> kstate \<Rightarrow> kstate" where
  "vPortSystemTickHandler cfg s =
    (let (ulSavedInterruptMask, s1) = uxPortSetInterruptMaskFromISR cfg s;
         (lYieldRequired, s2) = xTaskIncrementTick cfg s1;
         s3 = portCLEAR_INTERRUPT_MASK_FROM_ISR cfg s2 ulSavedInterruptMask
     in if lYieldRequired \<noteq> 0 then prvYield cfg s3 else s3)"

text \<open>
  The table \<^verbatim>\<open>STM[7]\<close> of timer modules, indexed by the core identifier: entry 5 is NULL and
  entry 6 is module 5.
\<close>

definition STM :: "nat option list" where
  "STM = [Some 0, Some 1, Some 2, Some 3, Some 4, None, Some 5]"

text \<open>
  Modelled from the spec: IfxStm_increaseCompare is a function of the timer driver
  (IfxStm.h, not under src/): it "reprograms the timer's compare value forward" by the
  given number of ticks, in the 32-bit compare register of the given module and comparator.
\<close>

definition IfxStm_increaseCompare :: "kstate \<Rightarrow> nat \<Rightarrow> nat \<Rightarrow> word32 \<Rightarrow> kstate" where
  "IfxStm_increaseCompare s stm comparator ticks =
     s\<lparr>stm_CMPVAL := (stm_CMPVAL s)(stm := (stm_CMPVAL s stm)(comparator :=
          stm_CMPVAL s stm comparator + ticks))\<rparr>"

text \<open>
  \<^verbatim>\<open>portGET_CORE_ID()\<close> reads the core identifier register. An index outside the table, or
  the NULL entry, gives no timer module to write to.
\<close>

definition portGET_CORE_ID :: "kstate \<Rightarrow> nat" where
  "portGET_CORE_ID s = unat (TriCore_mfcr s TRICORE_CPU_CORE_ID)"

definition isrSTM :: "port_cfg \<Rightarrow> kstate \<Rightarrow> trap + kstate" where
  "isrSTM cfg s =
    (if portGET_CORE_ID s < length STM
     then (case STM ! portGET_CORE_ID s of
             None \<Rightarrow> Inl NullPointer
           | Some stm \<Rightarrow>
               Inr (vPortSystemTickHandler cfg
                 (IfxStm_increaseCompare s stm
                    (g_STMConf_comparator s (portGET_CORE_ID s))
                    (g_ticksFor1ms s))))
     else Inl NullPointer)"

text \<open>\<^verbatim>\<open>configASSERT( NULL )\<close> in the default branch is the fatal assertion.\<close>

definition vTrapYield :: "port_cfg \<Rightarrow> kstate \<Rightarrow> int \<Rightarrow> trap + kstate" where
  "vTrapYield cfg s iTrapIdentification =
    (if iTrapIdentification = portSYSCALL_TASK_YIELD cfg
     then Inr (prvYield cfg s)
     else Inl AssertFailed)"

definition vPortSystemTaskHandler :: "port_cfg \<Rightarrow> kstate \<Rightarrow> kstate" where
  "vPortSystemTaskHandler cfg s = prvYield cfg s"

definition vPortYield :: "port_cfg \<Rightarrow> kstate \<Rightarrow> trap + kstate" where
  "vPortYield cfg s =
    (case TriCore_svlcx cfg s of
       Inl t \<Rightarrow> Inl t
     | Inr s1 \<Rightarrow> TriCore_rslcx cfg (vPortSystemTaskHandler cfg s1))"

text \<open>
  xPortStartScheduler is not embedded. It loads PCXI with the saved-context field of the
  first task, executes RSLCX and returns; the return is what passes control to the task.
  Where control goes after a function is not something a state transformer says.
\<close>

subsection \<open>vPortReclaimCSA\<close>

text \<open>
  The while loop of vPortReclaimCSA. It runs as long as the masked link word of the
  record at \<open>pulNextCSA\<close> is not zero, so on a cyclic chain it does not return: the value
  is then \<open>None\<close>.
\<close>

partial_function (option) reclaim_loop ::
  "port_cfg \<Rightarrow> kstate \<Rightarrow> word32 \<Rightarrow> word32 \<Rightarrow> (kstate \<times> word32) option" where
  "reclaim_loop cfg s pxTailCSA pulNextCSA =
    (if load s pulNextCSA 0 AND portCSA_FCX_MASK \<noteq> 0
     then reclaim_loop cfg
            (store s pulNextCSA 0 (load s pulNextCSA 0 AND portCSA_FCX_MASK))
            (load (store s pulNextCSA 0 (load s pulNextCSA 0 AND portCSA_FCX_MASK)) pulNextCSA 0)
            (portCSA_TO_ADDRESS cfg
               (load (store s pulNextCSA 0 (load s pulNextCSA 0 AND portCSA_FCX_MASK)) pulNextCSA 0))
     else Some (s, pxTailCSA))"

definition vPortReclaimCSA :: "port_cfg \<Rightarrow> kstate \<Rightarrow> word32 \<Rightarrow> kstate option" where
  "vPortReclaimCSA cfg s pxTCB =
    (let pxHeadCSA = load s pxTCB 0 AND portCSA_FCX_MASK;
         pxTailCSA = pxHeadCSA;
         pulNextCSA = portCSA_TO_ADDRESS cfg pxTailCSA
     in case reclaim_loop cfg s pxTailCSA pulNextCSA of
          None \<Rightarrow> None
        | Some (s1, pxTailCSA') \<Rightarrow>
           (let s2 = TriCore_disable s1;
                pxFreeCSA = TriCore_mfcr s2 TRICORE_CPU_FCX;
                s3 = store s2 (portCSA_TO_ADDRESS cfg pxTailCSA') 0 pxFreeCSA;
                s4 = TriCore_mtcr s3 TRICORE_CPU_FCX pxHeadCSA
            in Some (TriCore_enable s4)))"

subsection \<open>Chains of context records\<close>

text \<open>
  \<open>follow cfg m c as\<close> walks from the link value \<open>c\<close> through the records at the addresses
  \<open>as\<close>, in this order, the way the allocator reads the free list: a link names the
  record at \<open>portCSA_TO_ADDRESS\<close> of it, a null address ends the list, and word 0 of a
  record is the link to the next. The result is the link value found after the last record.
\<close>

primrec follow :: "port_cfg \<Rightarrow> (word32 \<Rightarrow> word32) \<Rightarrow> word32 \<Rightarrow> word32 list \<Rightarrow> word32 option" where
  "follow cfg m c [] = Some c"
| "follow cfg m c (a # as) =
     (if portCSA_TO_ADDRESS cfg c = a \<and> a \<noteq> 0 then follow cfg m (m a) as else None)"

text \<open>The Free Pool is the list of records reached from FCX, up to a null address.\<close>

definition free_pool :: "port_cfg \<Rightarrow> kstate \<Rightarrow> word32 list \<Rightarrow> bool" where
  "free_pool cfg s as \<longleftrightarrow>
     (case follow cfg (mem s) (csfr s TRICORE_CPU_FCX) as of
        None \<Rightarrow> False
      | Some c \<Rightarrow> portCSA_TO_ADDRESS cfg c = 0)"

text \<open>
  \<open>linked cfg m a bs\<close>: from the record at \<open>a\<close> the masked link words lead through the
  records \<open>bs\<close>, and the masked link word of the last record is the terminator 0. This
  is the chain as vPortReclaimCSA reads it.
\<close>

primrec linked :: "port_cfg \<Rightarrow> (word32 \<Rightarrow> word32) \<Rightarrow> word32 \<Rightarrow> word32 list \<Rightarrow> bool" where
  "linked cfg m a [] \<longleftrightarrow> m a AND portCSA_FCX_MASK = 0"
| "linked cfg m a (b # bs) \<longleftrightarrow>
     m a AND portCSA_FCX_MASK \<noteq> 0 \<and>
     portCSA_TO_ADDRESS cfg (m a AND portCSA_FCX_MASK) = b \<and> linked cfg m b bs"

text \<open>The chain of records named by the saved-context field of the control block at \<open>pxTCB\<close>.\<close>

definition task_chain :: "port_cfg \<Rightarrow> kstate \<Rightarrow> word32 \<Rightarrow> word32 list \<Rightarrow> bool" where
  "task_chain cfg s pxTCB recs \<longleftrightarrow>
     (case recs of
        [] \<Rightarrow> False
      | b # bs \<Rightarrow> portCSA_TO_ADDRESS cfg (mem s pxTCB AND portCSA_FCX_MASK) = b
                  \<and> linked cfg (mem s) b bs)"

subsection \<open>Context records, pools and what is asked of the parameters\<close>

text \<open>The byte addresses of the 16 words of the context record at \<open>a\<close>, and their contents.\<close>

definition csa_words :: "word32 \<Rightarrow> word32 list" where
  "csa_words a = map (word_at a) [0..<portNUM_WORDS_IN_CSA]"

definition csa_read :: "kstate \<Rightarrow> word32 \<Rightarrow> word32 list" where
  "csa_read s a = map (mem s) (csa_words a)"

definition csa_disjoint :: "word32 \<Rightarrow> word32 \<Rightarrow> bool" where
  "csa_disjoint a b \<longleftrightarrow> (\<forall>x \<in> set (csa_words a). x \<notin> set (csa_words b))"

text \<open>
  The records at the addresses \<open>as\<close> are different records: no word of one is a word of
  another.
\<close>

definition records_disjoint :: "word32 list \<Rightarrow> bool" where
  "records_disjoint as \<longleftrightarrow> distinct (concat (map csa_words as))"

text \<open>
  All the words of the records at the addresses \<open>as\<close>.
\<close>

definition arena_words :: "word32 list \<Rightarrow> word32 list" where
  "arena_words as = concat (map csa_words as)"

text \<open>
  The two CSA link conversions agree on the record at \<open>a\<close>: its identifier, masked to the
  link bits, names the record again.
\<close>

definition csa_codec_ok :: "port_cfg \<Rightarrow> word32 \<Rightarrow> bool" where
  "csa_codec_ok cfg a \<longleftrightarrow>
     portCSA_TO_ADDRESS cfg (portADDRESS_TO_CSA cfg a AND portCSA_FCX_MASK) = a"

text \<open>
  The free list cannot supply two records: the address of the head record is null, or the
  address of the record it links to is null. This is the negation of the test
  \<^verbatim>\<open>( NULL != pulLowerCSA ) && ( NULL != pulUpperCSA )\<close> of pxPortInitialiseStack.
\<close>

definition csa_depleted :: "port_cfg \<Rightarrow> kstate \<Rightarrow> bool" where
  "csa_depleted cfg s \<longleftrightarrow>
     portCSA_TO_ADDRESS cfg (csfr s TRICORE_CPU_FCX) = 0 \<or>
     portCSA_TO_ADDRESS cfg (mem s (portCSA_TO_ADDRESS cfg (csfr s TRICORE_CPU_FCX))) = 0"

text \<open>
  What the source says of SVLCX at this point, "Simply trigger a context list depletion
  trap": executed when the free list cannot supply two records, the instruction traps.
\<close>

definition svlcx_traps_on_depletion :: "port_cfg \<Rightarrow> bool" where
  "svlcx_traps_on_depletion cfg \<longleftrightarrow>
     (\<forall>s. csa_depleted cfg s \<longrightarrow> (\<exists>t. TriCore_svlcx cfg s = Inl t))"

text \<open>
  What the runs need of SVLCX and RSLCX: they are instructions on context records and
  context registers, and touch neither the kernel's current task table, nor the core
  identifier, nor the call log.
\<close>

definition instr_frame :: "port_cfg \<Rightarrow> bool" where
  "instr_frame cfg \<longleftrightarrow>
     (\<forall>s s'. TriCore_svlcx cfg s = Inr s' \<or> TriCore_rslcx cfg s = Inr s' \<longrightarrow>
        pxCurrentTCBs s' = pxCurrentTCBs s
        \<and> csfr s' TRICORE_CPU_CORE_ID = csfr s TRICORE_CPU_CORE_ID
        \<and> calls s' = calls s)"

subsection \<open>The call log and the installed context\<close>

text \<open>
  The number of calls of xTaskIncrementTick, and of vTaskSwitchContext, in a call log.
\<close>

definition tick_calls :: "kernel_call list \<Rightarrow> nat" where
  "tick_calls cs = length (filter (\<lambda>c. case c of IncrementTick _ \<Rightarrow> True | _ \<Rightarrow> False) cs)"

definition switch_calls :: "kernel_call list \<Rightarrow> nat" where
  "switch_calls cs = length (filter (\<lambda>c. case c of SwitchContext _ \<Rightarrow> True | _ \<Rightarrow> False) cs)"

text \<open>
  The task control block set by the last call of vTaskSwitchContext in a call log, if
  there was one.
\<close>

primrec last_selected :: "kernel_call list \<Rightarrow> word32 option" where
  "last_selected [] = None"
| "last_selected (c # cs) =
     (case last_selected cs of
        Some t \<Rightarrow> Some t
      | None \<Rightarrow> (case c of SwitchContext t \<Rightarrow> Some t | IncrementTick _ \<Rightarrow> None))"

text \<open>
  The current task pointer of the core is the one set by the last call of
  vTaskSwitchContext, when there has been such a call.
\<close>

definition current_is_last_selected :: "kstate \<Rightarrow> bool" where
  "current_is_last_selected s \<longleftrightarrow>
     (last_selected (calls s) = None \<or> last_selected (calls s) = Some (pxCurrentTCB s))"

text \<open>
  The context identifier from which the return sequence resumes: the link word of the
  record that PCXI names, which RSLCX and the return from the interrupt or trap load.
\<close>

definition installed :: "port_cfg \<Rightarrow> kstate \<Rightarrow> word32" where
  "installed cfg s = mem s (portCSA_TO_ADDRESS cfg (csfr s TRICORE_CPU_PCXI))"

subsection \<open>Sequences of switches\<close>

text \<open>
  The three ways into a switch on one core: the voluntary yield vPortYield, the yield trap
  vTrapYield with its trap identification, and the tick handler vPortSystemTickHandler.
  A run is a sequence of them; a trap ends it.
\<close>

datatype switch_event = Yield | TrapYield int | Tick

fun switch_step :: "port_cfg \<Rightarrow> switch_event \<Rightarrow> kstate \<Rightarrow> trap + kstate" where
  "switch_step cfg Yield s = vPortYield cfg s"
| "switch_step cfg (TrapYield iTrapIdentification) s = vTrapYield cfg s iTrapIdentification"
| "switch_step cfg Tick s = Inr (vPortSystemTickHandler cfg s)"

fun switch_run :: "port_cfg \<Rightarrow> switch_event list \<Rightarrow> kstate \<Rightarrow> trap + kstate" where
  "switch_run cfg [] s = Inr s"
| "switch_run cfg (e # es) s = (case switch_step cfg e s of Inl t \<Rightarrow> Inl t | Inr s' \<Rightarrow> switch_run cfg es s')"

text \<open>
  The state in which prvYield calls vTaskSwitchContext when it is entered in \<open>s\<close>:
  interrupts are disabled and the link word of the record that PCXI names has been saved
  in the saved-context field of the current control block.
\<close>

definition select_view :: "port_cfg \<Rightarrow> kstate \<Rightarrow> kstate" where
  "select_view cfg s = s\<lparr>ie := False, mem := (mem s)(pxCurrentTCB s := installed cfg s)\<rparr>"

text \<open>
  \<open>switch_done cfg s s'\<close>: \<open>s'\<close> is the outcome of a completed switch entered in \<open>s\<close>.
  The current task pointer is the task that vTaskSwitchContext selected on the state with
  the outgoing context saved; the call log has grown by exactly this call, so that it is
  the last selection; PCXI names the same record as before; and the context identifier
  installed in that record's link word is the saved-context field of the selected task.
\<close>

definition switch_done :: "port_cfg \<Rightarrow> kstate \<Rightarrow> kstate \<Rightarrow> bool" where
  "switch_done cfg s s' \<longleftrightarrow>
     pxCurrentTCB s' = next_task cfg (select_view cfg s) \<and>
     calls s' = calls s @ [SwitchContext (next_task cfg (select_view cfg s))] \<and>
     last_selected (calls s') = Some (pxCurrentTCB s') \<and>
     csfr s' TRICORE_CPU_PCXI = csfr s TRICORE_CPU_PCXI \<and>
     installed cfg s' = mem s' (pxCurrentTCB s')"

text \<open>
  For the tick handler entered in \<open>s\<close>: the value of the interrupt control register while
  the mask is raised, the state in which xTaskIncrementTick is called, and the state after
  tick accounting and unmasking, which is where a due switch is entered.
\<close>

definition tick_raised :: "port_cfg \<Rightarrow> kstate \<Rightarrow> word32" where
  "tick_raised cfg s =
     (csfr s TRICORE_CPU_ICR AND NOT (portCCPN_MASK cfg)) OR configMAX_SYSCALL_INTERRUPT_PRIORITY cfg"

definition tick_at_call :: "port_cfg \<Rightarrow> kstate \<Rightarrow> kstate" where
  "tick_at_call cfg s = s\<lparr>ie := True, csfr := (csfr s)(TRICORE_CPU_ICR := tick_raised cfg s)\<rparr>"

definition tick_counted :: "port_cfg \<Rightarrow> kstate \<Rightarrow> kstate" where
  "tick_counted cfg s =
     s\<lparr>ie := True, xTickCount := xTickCount s + 1,
       calls := calls s @ [IncrementTick (tick_raised cfg s)],
       csfr := (csfr s)(TRICORE_CPU_ICR :=
         (tick_raised cfg s AND NOT (portCCPN_MASK cfg)) OR (csfr s TRICORE_CPU_ICR AND portCCPN_MASK cfg))\<rparr>"

subsection \<open>Sequences of allocations and releases\<close>

text \<open>
  Sequences of allocate and release operations on the Free Pool. \<open>Build pxTCB tos code arg\<close>
  creates a task: pxPortInitialiseStack is called and the kernel stores the returned handle
  in the saved-context field (the first word) of the control block at \<open>pxTCB\<close>.
  \<open>Reclaim pxTCB\<close> calls vPortReclaimCSA on that control block. The callers' contract is
  part of the step: a control block lies outside the context records and is built once,
  and only the chain of a task that exists is reclaimed, once; a trap of the build, or a
  reclaim that does not return, ends the run.
\<close>

datatype pool_op = Build word32 word32 word32 word32 | Reclaim word32

datatype failure = Trapped trap | Diverged | OutOfContract

fun pool_step ::
  "port_cfg \<Rightarrow> word32 list \<Rightarrow> pool_op \<Rightarrow> kstate \<times> word32 list \<Rightarrow> failure + (kstate \<times> word32 list)" where
  "pool_step cfg arena (Build pxTCB pxTopOfStack pxCode pvParameters) (s, live) =
     (if pxTCB \<in> set live \<or> pxTCB \<in> set (arena_words arena) then Inl OutOfContract
      else case pxPortInitialiseStack cfg s pxTopOfStack pxCode pvParameters of
             Inl t \<Rightarrow> Inl (Trapped t)
           | Inr (h, s') \<Rightarrow> Inr (store s' pxTCB 0 h, pxTCB # live))"
| "pool_step cfg arena (Reclaim pxTCB) (s, live) =
     (if pxTCB \<notin> set live then Inl OutOfContract
      else case vPortReclaimCSA cfg s pxTCB of
             None \<Rightarrow> Inl Diverged
           | Some s' \<Rightarrow> Inr (s', remove1 pxTCB live))"

fun pool_run ::
  "port_cfg \<Rightarrow> word32 list \<Rightarrow> pool_op list \<Rightarrow> kstate \<times> word32 list \<Rightarrow> failure + (kstate \<times> word32 list)" where
  "pool_run cfg arena [] x = Inr x"
| "pool_run cfg arena (p # ps) x =
     (case pool_step cfg arena p x of Inl e \<Rightarrow> Inl e | Inr x' \<Rightarrow> pool_run cfg arena ps x')"

text \<open>
  The two records of a task that has not run: the Lower Context named by its saved-context
  field and the Upper Context that it links to.
\<close>

definition task_records :: "port_cfg \<Rightarrow> kstate \<Rightarrow> word32 \<Rightarrow> word32 list" where
  "task_records cfg s pxTCB =
     (let lo = portCSA_TO_ADDRESS cfg (mem s pxTCB AND portCSA_FCX_MASK);
          up = portCSA_TO_ADDRESS cfg (mem s lo AND portCSA_FCX_MASK)
      in [lo, up])"

text \<open>
  What the runs need of the records \<open>arena\<close> that make up the pool and of the parameters:
  the records are different records at non-null addresses, the two link conversions agree
  on them and take the null link to the null address, and SVLCX traps on a depleted list.
\<close>

definition arena_ok :: "port_cfg \<Rightarrow> word32 list \<Rightarrow> bool" where
  "arena_ok cfg arena \<longleftrightarrow>
     records_disjoint arena \<and> 0 \<notin> set arena \<and> (\<forall>a \<in> set arena. csa_codec_ok cfg a) \<and>
     portCSA_TO_ADDRESS cfg 0 = 0 \<and> svlcx_traps_on_depletion cfg"

text \<open>
  The invariant of the runs: the Free Pool is \<open>pool\<close>, the control blocks of the live tasks
  are different and lie outside the records, the saved-context field of each names its
  chain, and the pool together with these chains holds every record of the arena exactly
  once.
\<close>

definition pool_inv :: "port_cfg \<Rightarrow> word32 list \<Rightarrow> word32 list \<Rightarrow> kstate \<Rightarrow> word32 list \<Rightarrow> bool" where
  "pool_inv cfg arena pool s live \<longleftrightarrow>
     free_pool cfg s pool \<and> distinct live \<and>
     (\<forall>t \<in> set live. t \<notin> set (arena_words arena) \<and> task_chain cfg s t (task_records cfg s t)) \<and>
     mset (pool @ concat (map (task_records cfg s) live)) = mset arena"

subsection \<open>Closed forms of the memory after a build and after a reclaim\<close>

text \<open>The memory after the initialisation sequence of pxPortInitialiseStack.\<close>

definition init_records ::
  "kstate \<Rightarrow> word32 \<Rightarrow> word32 \<Rightarrow> word32 \<Rightarrow> word32 \<Rightarrow> word32 \<Rightarrow> word32 \<Rightarrow> word32 \<Rightarrow> kstate" where
  "init_records s up lo tos psw arg code link =
     store (store (store (memset_zero (store (store (memset_zero s up 16) up 2 tos) up 1 psw)
       lo 16) lo 8 arg) lo 1 code) lo 0 link"

text \<open>
  The state that pxPortInitialiseStack returns when it has reserved two records.
\<close>

definition built :: "port_cfg \<Rightarrow> kstate \<Rightarrow> word32 \<Rightarrow> word32 \<Rightarrow> word32 \<Rightarrow> kstate" where
  "built cfg s pxTopOfStack pxCode pvParameters =
    (let lo = portCSA_TO_ADDRESS cfg (csfr s TRICORE_CPU_FCX);
         up = portCSA_TO_ADDRESS cfg (mem s lo)
     in init_records
          (s\<lparr>csfr := (csfr s)(TRICORE_CPU_FCX := mem s up), ie := True\<rparr>)
          up lo pxTopOfStack portSYSTEM_PROGRAM_STATUS_WORD pvParameters pxCode
          (portINITIAL_PCXI_UPPER_CONTEXT_WORD OR portADDRESS_TO_CSA cfg up))"

text \<open>
  The memory after the loop of vPortReclaimCSA has walked the records \<open>recs\<close>: the link
  word of every record but the last has lost its tag bits.
\<close>

definition stripped :: "(word32 \<Rightarrow> word32) \<Rightarrow> word32 list \<Rightarrow> word32 \<Rightarrow> word32" where
  "stripped m recs = (\<lambda>x. if x \<in> set (butlast recs) then m x AND portCSA_FCX_MASK else m x)"

subsection \<open>An instance of the parameters\<close>

text \<open>
  A concrete choice of the parameters, on which the definitions can be run: context
  links with a 4-bit segment above a 16-bit index of 64-byte records, a CCPN field of
  eight bits, SVLCX and RSLCX moving one record between the free list and the list of
  PCXI, a kernel that alternates between two control blocks and wants a switch on every
  second tick.
\<close>

definition tc_CSA_TO_ADDRESS :: "word32 \<Rightarrow> word32" where
  "tc_CSA_TO_ADDRESS c = push_bit 12 (c AND 0x000F0000) OR push_bit 6 (c AND 0x0000FFFF)"

definition tc_ADDRESS_TO_CSA :: "word32 \<Rightarrow> word32" where
  "tc_ADDRESS_TO_CSA a = drop_bit 12 (a AND 0xF0000000) OR drop_bit 6 (a AND 0x003FFFC0)"

definition tc_svlcx :: "kstate \<Rightarrow> trap + kstate" where
  "tc_svlcx s =
    (let a = tc_CSA_TO_ADDRESS (csfr s TRICORE_CPU_FCX)
     in if a = 0 \<or> tc_CSA_TO_ADDRESS (mem s a) = 0 then Inl ContextListDepletion
        else Inr (s\<lparr>csfr := (csfr s)(TRICORE_CPU_PCXI := csfr s TRICORE_CPU_FCX,
                                      TRICORE_CPU_FCX := mem s a),
                     mem := (mem s)(a := csfr s TRICORE_CPU_PCXI)\<rparr>))"

definition tc_rslcx :: "kstate \<Rightarrow> trap + kstate" where
  "tc_rslcx s =
    (let a = tc_CSA_TO_ADDRESS (csfr s TRICORE_CPU_PCXI)
     in if a = 0 then Inl NullPointer
        else Inr (s\<lparr>csfr := (csfr s)(TRICORE_CPU_FCX := csfr s TRICORE_CPU_PCXI,
                                      TRICORE_CPU_PCXI := mem s a),
                     mem := (mem s)(a := csfr s TRICORE_CPU_FCX)\<rparr>))"

definition tc_cfg :: port_cfg where
  "tc_cfg = \<lparr>portCSA_TO_ADDRESS = tc_CSA_TO_ADDRESS,
             portADDRESS_TO_CSA = tc_ADDRESS_TO_CSA,
             portCCPN_MASK = 0x000000FF,
             configMAX_SYSCALL_INTERRUPT_PRIORITY = 64,
             portSYSCALL_TASK_YIELD = 0,
             TriCore_svlcx = tc_svlcx,
             TriCore_rslcx = tc_rslcx,
             next_task = (\<lambda>s. if pxCurrentTCB s = 0x1000 then 0x2000 else 0x1000),
             switch_due = (\<lambda>s. xTickCount s AND 1)\<rparr>"

text \<open>
  A state of core 0 with four free records at 0x70000040, 0x70000080, 0x700000C0 and
  0x70000100, linked in this order from FCX.
\<close>

definition tc_state :: kstate where
  "tc_state =
     \<lparr>csfr = (\<lambda>r. 0)(TRICORE_CPU_FCX := 0x00070001, TRICORE_CPU_ICR := 0x00000105),
      mem = (\<lambda>a. 0)(0x70000040 := 0x00070002, 0x70000080 := 0x00070003,
                     0x700000C0 := 0x00070004),
      ie = False,
      uxCriticalNesting = 0,
      pxCurrentTCBs = (\<lambda>c. 0)(0 := 0x1000),
      stm_CMPVAL = (\<lambda>m k. 0),
      g_STMConf_comparator = (\<lambda>c. 0),
      g_ticksFor1ms = 100000,
      xTickCount = 0,
      calls = []\<rparr>"

text \<open>
  A state with one free record and a control block at 0x1000 whose saved-context field
  names a chain of three records, 0x70000140, 0x70000180 and 0x700001C0.
\<close>

definition tc_task_state :: kstate where
  "tc_task_state =
     tc_state\<lparr>mem := (\<lambda>a. 0)(0x1000 := 0x00370005, 0x70000140 := 0x00370006,
                                0x70000180 := 0x00270007, 0x700001C0 := 0x00300000,
                                0x70000040 := 0x00070002)\<rparr>"

text \<open>
  A state in which PCXI names the record at 0x70000040, whose link word is 0x00370005; the
  current control block is at 0x1000 and the control block at 0x2000 has the saved-context
  field 0x00370007.
\<close>

definition tc_switch_state :: kstate where
  "tc_switch_state =
     tc_state\<lparr>csfr := (\<lambda>r. 0)(TRICORE_CPU_PCXI := 0x00070001, TRICORE_CPU_FCX := 0x00070002),
              mem := (\<lambda>a. 0)(0x70000040 := 0x00370005, 0x1000 := 0x00370003,
                              0x2000 := 0x00370007)\<rparr>"

text \<open>
  The state above at tick count 1, where the instance's kernel wants a switch.
\<close>

definition tc_tick_state :: kstate where
  "tc_tick_state = tc_switch_state\<lparr>xTickCount := 1, csfr := (csfr tc_switch_state)(TRICORE_CPU_ICR := 0x00000105)\<rparr>"

section \<open>Memory lemmas\<close>

lemma four_of_nat_inj:
  assumes "i < 16" "j < 16" and eq: "(4 * of_nat i :: word32) = 4 * of_nat j"
  shows "i = j"
proof -
  have "unat (of_nat (4 * i) :: word32) = unat (of_nat (4 * j) :: word32)"
    using eq by simp
  moreover have "unat (of_nat (4 * i) :: word32) = 4 * i"
    using assms(1) by (simp only: unat_of_nat) simp
  moreover have "unat (of_nat (4 * j) :: word32) = 4 * j"
    using assms(2) by (simp only: unat_of_nat) simp
  ultimately show ?thesis by simp
qed

lemma word_at_inj: "i < 16 \<Longrightarrow> j < 16 \<Longrightarrow> word_at p i = word_at p j \<longleftrightarrow> i = j"
  by (auto simp: word_at_def dest: four_of_nat_inj)

lemma word_at_0 [simp]: "word_at p 0 = p"
  by (simp add: word_at_def)

lemma word_at_in_csa: "i < 16 \<Longrightarrow> word_at a i \<in> set (csa_words a)"
  by (simp add: csa_words_def portNUM_WORDS_IN_CSA_def)

lemma csa_disjoint_neq:
  "csa_disjoint a b \<Longrightarrow> i < 16 \<Longrightarrow> j < 16 \<Longrightarrow> word_at a i \<noteq> word_at b j"
  unfolding csa_disjoint_def using word_at_in_csa by metis

lemma mem_store: "mem (store s p i v) x = (if x = word_at p i then v else mem s x)"
  by (simp add: store_def)

lemma mem_memset_zero:
  "mem (memset_zero s p n) x = (if x \<in> word_at p ` {..<n} then 0 else mem s x)"
  by (induction n) (auto simp: mem_store lessThan_Suc)

lemma csfr_store [simp]: "csfr (store s p i v) = csfr s"
  by (simp add: store_def)

lemma csfr_memset_zero [simp]: "csfr (memset_zero s p n) = csfr s"
  by (induction n) simp_all

lemma csa_disjoint_sym: "csa_disjoint a b \<Longrightarrow> csa_disjoint b a"
  unfolding csa_disjoint_def by blast

lemma word_at_in_image: "i < n \<Longrightarrow> word_at p i \<in> word_at p ` {..<n}"
  by simp

lemma word_at_notin_image:
  "csa_disjoint a b \<Longrightarrow> i < 16 \<Longrightarrow> word_at a i \<notin> word_at b ` {..<16}"
  using csa_disjoint_neq by blast

lemma upt_16: "[0..<16] = [0, 1, 2, 3, 4, 5, 6, 7, 8, 9, 10, 11, 12, 13, 14, 15]"
  by code_simp

lemma csa_read_nth:
  "csa_read s a = map (\<lambda>i. mem s (word_at a i)) [0, 1, 2, 3, 4, 5, 6, 7, 8, 9, 10, 11, 12, 13, 14, 15]"
  by (simp add: csa_read_def csa_words_def portNUM_WORDS_IN_CSA_def upt_16)

lemma init_records_upper:
  assumes "csa_disjoint lo up" "i < 16"
  shows "mem (init_records s up lo tos psw arg code link) (word_at up i) =
           (if i = 1 then psw else if i = 2 then tos else 0)"
proof -
  have d: "csa_disjoint up lo" using assms(1) by (rule csa_disjoint_sym)
  have a: "\<And>j. j < 16 \<Longrightarrow> word_at up i \<noteq> word_at lo j"
    using d assms(2) by (rule csa_disjoint_neq)
  have b: "word_at up i \<notin> word_at lo ` {..<16}"
    using d assms(2) by (rule word_at_notin_image)
  have c: "word_at up i \<in> word_at up ` {..<16}"
    using assms(2) by (rule word_at_in_image)
  have e: "\<And>j. j < 16 \<Longrightarrow> (word_at up i = word_at up j) = (i = j)"
    using assms(2) by (simp add: word_at_inj)
  have a0: "word_at up i \<noteq> lo" using a [of 0] by simp
  show ?thesis
    unfolding init_records_def
    by (simp add: mem_store mem_memset_zero a a0 b c e del: word_at_0)
qed

lemma init_records_lower:
  assumes "i < 16"
  shows "mem (init_records s up lo tos psw arg code link) (word_at lo i) =
           (if i = 0 then link else if i = 1 then code else if i = 8 then arg else 0)"
proof -
  have c: "word_at lo i \<in> word_at lo ` {..<16}"
    using assms by (rule word_at_in_image)
  have e: "\<And>j. j < 16 \<Longrightarrow> (word_at lo i = word_at lo j) = (i = j)"
    using assms by (simp add: word_at_inj)
  show ?thesis
    unfolding init_records_def
    by (simp add: mem_store mem_memset_zero c e del: word_at_0)
qed

lemma init_records_frame:
  assumes "x \<notin> set (csa_words lo)" "x \<notin> set (csa_words up)"
  shows "mem (init_records s up lo tos psw arg code link) x = mem s x"
proof -
  have a: "\<And>j. j < 16 \<Longrightarrow> x \<noteq> word_at lo j" "\<And>j. j < 16 \<Longrightarrow> x \<noteq> word_at up j"
    using assms word_at_in_csa by blast+
  have b: "x \<notin> word_at lo ` {..<16}" "x \<notin> word_at up ` {..<16}"
    using a by auto
  show ?thesis
    unfolding init_records_def
    by (simp add: mem_store mem_memset_zero a b del: word_at_0)
qed

lemma init_records_csfr [simp]:
  "csfr (init_records s up lo tos psw arg code link) = csfr s"
  by (simp add: init_records_def)

section \<open>Building the initial context\<close>

text \<open>
  C1. When the free context list supplies two records that do not overlap (the record
  \<open>lo\<close> named by FCX and the record \<open>up\<close> named by the link word of \<open>lo\<close>, both non-null),
  pxPortInitialiseStack returns the identifier of \<open>lo\<close>, and afterwards the Upper Context
  \<open>up\<close> holds the program status word 0x000008FF in word 1 and the stack pointer in word 2,
  the Lower Context \<open>lo\<close> holds in word 0 the tag 0x00300000 combined with the identifier of
  \<open>up\<close>, the entry address in word 1 and the argument in word 8, and every other word of
  the two 16-word records is zero.
\<close>

theorem pxPortInitialiseStack_initial_context:
  assumes lo: "lo = portCSA_TO_ADDRESS cfg (csfr s TRICORE_CPU_FCX)"
      and up: "up = portCSA_TO_ADDRESS cfg (mem s lo)"
      and nz: "lo \<noteq> 0" "up \<noteq> 0"
      and dj: "csa_disjoint lo up"
  shows "\<exists>s'. pxPortInitialiseStack cfg s pxTopOfStack pxCode pvParameters
                 = Inr (portADDRESS_TO_CSA cfg lo, s')
          \<and> csa_read s' up =
               [0, 0x000008FF, pxTopOfStack, 0, 0, 0, 0, 0, 0, 0, 0, 0, 0, 0, 0, 0]
          \<and> csa_read s' lo =
               [0x00300000 OR portADDRESS_TO_CSA cfg up, pxCode, 0, 0, 0, 0, 0, 0,
                pvParameters, 0, 0, 0, 0, 0, 0, 0]"
proof -
  define s3 where "s3 = portEXIT_CRITICAL (TriCore_enable (TriCore_mtcr
      (TriCore_disable (portENTER_CRITICAL s)) TRICORE_CPU_FCX (mem s up)))"
  define s' where "s' = init_records s3 up lo pxTopOfStack portSYSTEM_PROGRAM_STATUS_WORD
      pvParameters pxCode (portINITIAL_PCXI_UPPER_CONTEXT_WORD OR portADDRESS_TO_CSA cfg up)"
  have run: "pxPortInitialiseStack cfg s pxTopOfStack pxCode pvParameters
               = Inr (portADDRESS_TO_CSA cfg lo, s')"
    using nz
    by (simp add: pxPortInitialiseStack_def Let_def lo [symmetric] up [symmetric] s'_def s3_def
        init_records_def portENTER_CRITICAL_def TriCore_mfcr_def load_def
        portNUM_WORDS_IN_CSA_def)
  have upper: "csa_read s' up =
      [0, 0x000008FF, pxTopOfStack, 0, 0, 0, 0, 0, 0, 0, 0, 0, 0, 0, 0, 0]"
    unfolding csa_read_nth s'_def
    by (simp add: init_records_upper [OF dj] portSYSTEM_PROGRAM_STATUS_WORD_def del: word_at_0)
  have lower: "csa_read s' lo =
      [0x00300000 OR portADDRESS_TO_CSA cfg up, pxCode, 0, 0, 0, 0, 0, 0,
       pvParameters, 0, 0, 0, 0, 0, 0, 0]"
    unfolding csa_read_nth s'_def
    by (simp add: init_records_lower portINITIAL_PCXI_UPPER_CONTEXT_WORD_def del: word_at_0)
  from run upper lower show ?thesis by blast
qed

theorem pxPortInitialiseStack_initial_context_witness:
  "\<exists>s'. pxPortInitialiseStack tc_cfg tc_state 0x50001000 0x80002000 0x2A
            = Inr (0x00070001, s')
        \<and> csa_read s' 0x70000080 =
             [0, 0x000008FF, 0x50001000, 0, 0, 0, 0, 0, 0, 0, 0, 0, 0, 0, 0, 0]
        \<and> csa_read s' 0x70000040 =
             [0x00370002, 0x80002000, 0, 0, 0, 0, 0, 0, 0x2A, 0, 0, 0, 0, 0, 0, 0]"
proof -
  have lo: "0x70000040 = portCSA_TO_ADDRESS tc_cfg (csfr tc_state TRICORE_CPU_FCX)"
    by (simp add: tc_cfg_def tc_state_def tc_CSA_TO_ADDRESS_def)
  have up: "0x70000080 = portCSA_TO_ADDRESS tc_cfg (mem tc_state 0x70000040)"
    by (simp add: tc_cfg_def tc_state_def tc_CSA_TO_ADDRESS_def)
  have dj: "csa_disjoint 0x70000040 0x70000080"
    by (simp add: csa_disjoint_def csa_words_def portNUM_WORDS_IN_CSA_def upt_16 word_at_def)
  have ids: "portADDRESS_TO_CSA tc_cfg 0x70000040 = 0x00070001"
    "0x00300000 OR portADDRESS_TO_CSA tc_cfg 0x70000080 = 0x00370002"
    by (simp_all add: tc_cfg_def tc_ADDRESS_TO_CSA_def)
  show ?thesis
    using pxPortInitialiseStack_initial_context
      [where pxTopOfStack = "0x50001000" and pxCode = "0x80002000" and pvParameters = "0x2A",
       OF lo up _ _ dj]
    by (simp add: ids)
qed

section \<open>Reclaiming a chain\<close>

lemma load_0 [simp]: "load s p 0 = mem s p"
  by (simp add: load_def)

lemma store_0: "store s p 0 v = s\<lparr>mem := (mem s)(p := v)\<rparr>"
  by (simp add: store_def)

lemma linked_cong:
  "(\<And>x. x \<in> set (a # bs) \<Longrightarrow> m x = m' x) \<Longrightarrow> linked cfg m a bs = linked cfg m' a bs"
  by (induction bs arbitrary: a) auto

lemma follow_cong:
  "(\<And>x. x \<in> set as \<Longrightarrow> m x = m' x) \<Longrightarrow> follow cfg m c as = follow cfg m' c as"
  by (induction as arbitrary: c) auto

lemma reclaim_loop_linked:
  assumes "linked cfg (mem s) a bs" "distinct (a # bs)"
  shows "\<exists>t'. reclaim_loop cfg s t a = Some (s\<lparr>mem := stripped (mem s) (a # bs)\<rparr>, t')
              \<and> (if bs = [] then t' = t else portCSA_TO_ADDRESS cfg t' = last bs)"
  using assms
proof (induction bs arbitrary: s t a)
  case Nil
  then show ?case
    by (subst reclaim_loop.simps) (simp add: stripped_def)
next
  case (Cons b bs)
  define t1 where "t1 = mem s a AND portCSA_FCX_MASK"
  define s1 where "s1 = s\<lparr>mem := (mem s)(a := t1)\<rparr>"
  from Cons.prems have nz: "t1 \<noteq> 0" and nx: "portCSA_TO_ADDRESS cfg t1 = b"
    and lk: "linked cfg (mem s) b bs" and a: "a \<notin> set (b # bs)" and d: "distinct (b # bs)"
    by (simp_all add: t1_def)
  have "linked cfg (mem s1) b bs = linked cfg (mem s) b bs"
    using a by (intro linked_cong) (auto simp: s1_def)
  with lk have "linked cfg (mem s1) b bs" by simp
  from Cons.IH [OF this d, of t1] obtain t' where
    r: "reclaim_loop cfg s1 t1 b = Some (s1\<lparr>mem := stripped (mem s1) (b # bs)\<rparr>, t')"
    and t': "if bs = [] then t' = t1 else portCSA_TO_ADDRESS cfg t' = last bs"
    by blast
  have m: "stripped (mem s1) (b # bs) = stripped (mem s) (a # b # bs)"
    using a by (auto simp: stripped_def s1_def t1_def fun_eq_iff dest: in_set_butlastD)
  have step: "reclaim_loop cfg s t a = reclaim_loop cfg s1 t1 b"
    using nz nx by (subst reclaim_loop.simps) (simp add: store_0 t1_def s1_def)
  have "s1\<lparr>mem := stripped (mem s1) (b # bs)\<rparr> = s\<lparr>mem := stripped (mem s) (a # b # bs)\<rparr>"
    by (simp add: m) (simp add: s1_def)
  with step r t' nx show ?case by (auto split: if_splits)
qed

lemma follow_spliced:
  assumes "linked cfg m a bs" "distinct (a # bs)" "0 \<notin> set (a # bs)"
    and "portCSA_TO_ADDRESS cfg c = a"
  shows "follow cfg ((stripped m (a # bs))(last (a # bs) := v)) c (a # bs) = Some v"
  using assms
proof (induction bs arbitrary: a c)
  case Nil
  then show ?case by simp
next
  case (Cons b bs)
  let ?m' = "(stripped m (a # b # bs))(last (a # b # bs) := v)"
  let ?m'' = "(stripped m (b # bs))(last (b # bs) := v)"
  from Cons.prems have a: "a \<notin> set (b # bs)" "a \<noteq> 0" by auto
  have "last (b # bs) \<in> set (b # bs)" by (rule last_in_set) simp
  with a have al: "a \<noteq> last (b # bs)" by metis
  have ma: "?m' a = m a AND portCSA_FCX_MASK"
    using al by (simp add: stripped_def)
  have same: "\<And>x. x \<in> set (b # bs) \<Longrightarrow> ?m' x = ?m'' x"
    using a by (auto simp: stripped_def)
  have "follow cfg ?m' c (a # b # bs) = follow cfg ?m' (m a AND portCSA_FCX_MASK) (b # bs)"
    using Cons.prems(4) a ma by simp
  also have "\<dots> = follow cfg ?m'' (m a AND portCSA_FCX_MASK) (b # bs)"
    using same by (rule follow_cong)
  also have "\<dots> = Some v"
    using Cons.prems by (intro Cons.IH) auto
  finally show ?case .
qed

lemma vPortReclaimCSA_explicit:
  assumes "task_chain cfg s pxTCB recs" "distinct recs"
  shows "vPortReclaimCSA cfg s pxTCB =
           Some (s\<lparr>mem := (stripped (mem s) recs)(last recs := csfr s TRICORE_CPU_FCX),
                   csfr := (csfr s)(TRICORE_CPU_FCX := mem s pxTCB AND portCSA_FCX_MASK),
                   ie := True\<rparr>)"
proof -
  from assms(1) obtain b bs where recs: "recs = b # bs"
    and b: "portCSA_TO_ADDRESS cfg (mem s pxTCB AND portCSA_FCX_MASK) = b"
    and lk: "linked cfg (mem s) b bs"
    by (auto simp: task_chain_def split: list.splits)
  from reclaim_loop_linked [OF lk assms(2) [unfolded recs], of "mem s pxTCB AND portCSA_FCX_MASK"]
  obtain t' where
    r: "reclaim_loop cfg s (mem s pxTCB AND portCSA_FCX_MASK) b
          = Some (s\<lparr>mem := stripped (mem s) (b # bs)\<rparr>, t')"
    and t': "if bs = [] then t' = mem s pxTCB AND portCSA_FCX_MASK
             else portCSA_TO_ADDRESS cfg t' = last bs"
    by blast
  from t' b have tl: "portCSA_TO_ADDRESS cfg t' = last (b # bs)"
    by (auto split: if_splits)
  show ?thesis
    by (simp add: vPortReclaimCSA_def Let_def b r tl recs store_0 TriCore_disable_def
        TriCore_enable_def TriCore_mtcr_def TriCore_mfcr_def del: last.simps)
qed

text \<open>
  C2. Let the saved-context field of the control block at \<open>pxTCB\<close> name a chain \<open>recs\<close> of
  records (of any length, so also of N + 2 records) at distinct non-null addresses, the
  masked link word of each leading to the next and that of the last being 0. Then
  vPortReclaimCSA returns; it has stripped the tag bits from the link word of every record
  but the last, stored the old Free Pool head into the link word of the last, and set FCX
  to the masked handle; from the new FCX the free list runs through all records of
  \<open>recs\<close>, in order, and continues with the old Free Pool head. No other word of memory
  has changed.
\<close>

theorem vPortReclaimCSA_returns_chain:
  assumes "task_chain cfg s pxTCB recs" "distinct recs" "0 \<notin> set recs"
  shows "\<exists>s'. vPortReclaimCSA cfg s pxTCB = Some s'
          \<and> csfr s' TRICORE_CPU_FCX = mem s pxTCB AND portCSA_FCX_MASK
          \<and> follow cfg (mem s') (csfr s' TRICORE_CPU_FCX) recs = Some (csfr s TRICORE_CPU_FCX)
          \<and> (\<forall>a \<in> set (butlast recs). mem s' a = mem s a AND portCSA_FCX_MASK)
          \<and> mem s' (last recs) = csfr s TRICORE_CPU_FCX
          \<and> (\<forall>x. x \<notin> set recs \<longrightarrow> mem s' x = mem s x)"
proof -
  from assms(1) obtain b bs where recs: "recs = b # bs"
    and b: "portCSA_TO_ADDRESS cfg (mem s pxTCB AND portCSA_FCX_MASK) = b"
    and lk: "linked cfg (mem s) b bs"
    by (auto simp: task_chain_def split: list.splits)
  have f: "follow cfg ((stripped (mem s) recs)(last recs := csfr s TRICORE_CPU_FCX))
             (mem s pxTCB AND portCSA_FCX_MASK) recs = Some (csfr s TRICORE_CPU_FCX)"
    unfolding recs using lk assms(2,3) b unfolding recs by (rule follow_spliced)
  have "recs \<noteq> []" using recs by simp
  then have "butlast recs @ [last recs] = recs" by (rule append_butlast_last_id)
  with assms(2) have "distinct (butlast recs @ [last recs])" by (simp only:)
  then have bl: "\<And>a. a \<in> set (butlast recs) \<Longrightarrow> a \<noteq> last recs"
    by auto
  have nl: "\<And>x. x \<notin> set recs \<Longrightarrow> x \<noteq> last recs \<and> x \<notin> set (butlast recs)"
    using recs by (metis in_set_butlastD last_in_set list.distinct(1))
  show ?thesis
    unfolding vPortReclaimCSA_explicit [OF assms(1,2)]
    using f bl nl by (simp add: stripped_def)
qed

theorem vPortReclaimCSA_returns_chain_witness:
  "task_chain tc_cfg tc_task_state 0x1000 [0x70000140, 0x70000180, 0x700001C0] \<and>
   (\<exists>s'. vPortReclaimCSA tc_cfg tc_task_state 0x1000 = Some s'
        \<and> csfr s' TRICORE_CPU_FCX = mem tc_task_state 0x1000 AND portCSA_FCX_MASK
        \<and> follow tc_cfg (mem s') (csfr s' TRICORE_CPU_FCX)
             [0x70000140, 0x70000180, 0x700001C0] = Some (csfr tc_task_state TRICORE_CPU_FCX)
        \<and> (\<forall>a \<in> set (butlast [0x70000140, 0x70000180, 0x700001C0]).
              mem s' a = mem tc_task_state a AND portCSA_FCX_MASK)
        \<and> mem s' (last [0x70000140, 0x70000180, 0x700001C0]) = csfr tc_task_state TRICORE_CPU_FCX
        \<and> (\<forall>x. x \<notin> set [0x70000140, 0x70000180, 0x700001C0] \<longrightarrow> mem s' x = mem tc_task_state x))"
proof -
  have vals: "mem tc_task_state 0x1000 = 0x00370005" "mem tc_task_state 0x70000140 = 0x00370006"
    "mem tc_task_state 0x70000180 = 0x00270007" "mem tc_task_state 0x700001C0 = 0x00300000"
    by (simp_all add: tc_task_state_def tc_state_def)
  have tc: "task_chain tc_cfg tc_task_state 0x1000 [0x70000140, 0x70000180, 0x700001C0]"
    by (simp add: task_chain_def vals portCSA_FCX_MASK_def)
       (simp add: tc_cfg_def tc_CSA_TO_ADDRESS_def)
  have d: "distinct [0x70000140, 0x70000180, 0x700001C0 :: word32]"
    and z: "0 \<notin> set [0x70000140, 0x70000180, 0x700001C0 :: word32]"
    by simp_all
  show ?thesis
    using tc vPortReclaimCSA_returns_chain [OF tc d z] by (rule conjI)
qed

section \<open>The switch\<close>

lemma prvYield_explicit:
  "prvYield cfg s =
    (let a = portCSA_TO_ADDRESS cfg (csfr s TRICORE_CPU_PCXI);
         old = pxCurrentTCB s;
         s2 = s\<lparr>ie := False, mem := (mem s)(old := mem s a)\<rparr>;
         new = next_task cfg s2
     in s\<lparr>pxCurrentTCBs := (pxCurrentTCBs s)(csfr s TRICORE_CPU_CORE_ID := new),
          calls := calls s @ [SwitchContext new],
          mem := (mem s2)(a := mem s2 new),
          ie := True\<rparr>)"
  by (simp add: prvYield_def Let_def TriCore_disable_def TriCore_enable_def TriCore_mfcr_def
      store_0 pxCurrentTCB_def vTaskSwitchContext_def)

text \<open>
  C3, as the code has it. Let \<open>a\<close> be the address of the record that PCXI names on entry.
  prvYield first copies the link word of that record (word 0 at \<open>a\<close>), not the register,
  into the saved-context field of the current control block; then it calls
  vTaskSwitchContext, once, on the state that holds this saved value; then it writes the
  saved-context field of the newly selected control block into the same link word at \<open>a\<close>.
  No core register changes, PCXI included, and no other word of memory changes.
\<close>

theorem prvYield_save_select_restore:
  fixes cfg s
  defines "a \<equiv> portCSA_TO_ADDRESS cfg (csfr s TRICORE_CPU_PCXI)"
      and "old \<equiv> pxCurrentTCB s"
  defines "seen \<equiv> s\<lparr>ie := False, mem := (mem s)(old := mem s a)\<rparr>"
  defines "new \<equiv> next_task cfg seen"
      and "s' \<equiv> prvYield cfg s"
  shows "calls s' = calls s @ [SwitchContext new]
       \<and> pxCurrentTCB s' = new
       \<and> mem s' a = mem s' new
       \<and> (old \<noteq> a \<longrightarrow> mem s' old = mem s a)
       \<and> (new \<noteq> old \<longrightarrow> mem s' a = mem s new)
       \<and> (new = old \<longrightarrow> mem s' a = mem s a)
       \<and> (\<forall>x. x \<noteq> old \<and> x \<noteq> a \<longrightarrow> mem s' x = mem s x)
       \<and> csfr s' = csfr s"
  unfolding s'_def prvYield_explicit new_def seen_def old_def a_def
  by (simp add: Let_def pxCurrentTCB_def TriCore_mfcr_def)

text \<open>
  C3, as stated, fails: after the switch the PCXI register does not hold the saved-context
  identifier of the selected task, and the value saved for the outgoing task is not the
  value of the register.
\<close>

theorem prvYield_register_counterexample:
  "csfr (prvYield tc_cfg tc_switch_state) TRICORE_CPU_PCXI
     \<noteq> mem (prvYield tc_cfg tc_switch_state) (pxCurrentTCB (prvYield tc_cfg tc_switch_state))
   \<and> mem (prvYield tc_cfg tc_switch_state) (pxCurrentTCB tc_switch_state)
     \<noteq> csfr tc_switch_state TRICORE_CPU_PCXI"
  unfolding prvYield_explicit
  by (simp add: Let_def tc_switch_state_def tc_state_def tc_cfg_def pxCurrentTCB_def
      TriCore_mfcr_def tc_CSA_TO_ADDRESS_def)

theorem prvYield_save_select_restore_witness:
  "mem (prvYield tc_cfg tc_switch_state) 0x1000 = 0x00370005
   \<and> pxCurrentTCB (prvYield tc_cfg tc_switch_state) = 0x2000
   \<and> mem (prvYield tc_cfg tc_switch_state) 0x70000040 = 0x00370007
   \<and> csfr (prvYield tc_cfg tc_switch_state) TRICORE_CPU_PCXI = 0x00070001"
proof -
  have a: "portCSA_TO_ADDRESS tc_cfg (csfr tc_switch_state TRICORE_CPU_PCXI) = 0x70000040"
    by (simp add: tc_switch_state_def tc_cfg_def tc_CSA_TO_ADDRESS_def)
  have old: "pxCurrentTCB tc_switch_state = 0x1000"
    by (simp add: tc_switch_state_def tc_state_def pxCurrentTCB_def TriCore_mfcr_def)
  have new: "next_task tc_cfg (tc_switch_state\<lparr>ie := False,
      mem := (mem tc_switch_state)(0x1000 := mem tc_switch_state 0x70000040)\<rparr>) = 0x2000"
    by (simp add: tc_switch_state_def tc_state_def tc_cfg_def pxCurrentTCB_def TriCore_mfcr_def)
  have m: "mem tc_switch_state 0x70000040 = 0x00370005" "mem tc_switch_state 0x2000 = 0x00370007"
    "csfr tc_switch_state TRICORE_CPU_PCXI = 0x00070001"
    by (simp_all add: tc_switch_state_def)
  show ?thesis
    using prvYield_save_select_restore [of tc_cfg tc_switch_state]
    unfolding a old new by (simp add: m)
qed

section \<open>Interrupt mask, tick and switch sequences\<close>

lemma uxPortSetInterruptMaskFromISR_explicit:
  "uxPortSetInterruptMaskFromISR cfg s =
     (csfr s TRICORE_CPU_ICR AND portCCPN_MASK cfg,
      s\<lparr>ie := True,
        csfr := (csfr s)(TRICORE_CPU_ICR :=
          (csfr s TRICORE_CPU_ICR AND NOT (portCCPN_MASK cfg))
            OR configMAX_SYSCALL_INTERRUPT_PRIORITY cfg)\<rparr>)"
  by (simp add: uxPortSetInterruptMaskFromISR_def Let_def TriCore_disable_def TriCore_enable_def
      TriCore_mfcr_def TriCore_mtcr_def)

lemma field_replace:
  fixes x m p :: word32
  assumes "p AND NOT m = 0"
  shows "((x AND NOT m) OR p) AND m = p" "((x AND NOT m) OR p) AND NOT m = x AND NOT m"
proof -
  have p: "p AND m = p"
    using assms by (metis bit.conj_cancel_right bit.conj_disj_distrib bit.conj_one_right
        bit.disj_cancel_right bit.disj_zero_right)
  show "((x AND NOT m) OR p) AND m = p"
    by (simp add: bit.conj_disj_distrib2 p and.assoc)
  show "((x AND NOT m) OR p) AND NOT m = x AND NOT m"
    by (simp add: bit.conj_disj_distrib2 assms and.assoc)
qed

text \<open>
  C10, as the code has it. When the priority fits the CCPN field,
  uxPortSetInterruptMaskFromISR returns the CCPN field of the interrupt control register as
  it was, sets that field to configMAX_SYSCALL_INTERRUPT_PRIORITY and leaves the other
  bits of the register as they were; it also leaves the interrupts enabled (it disables
  them for the update and enables them at the end), and changes nothing else.
\<close>

theorem uxPortSetInterruptMaskFromISR_effect:
  assumes "configMAX_SYSCALL_INTERRUPT_PRIORITY cfg AND NOT (portCCPN_MASK cfg) = 0"
  shows "\<exists>icr. uxPortSetInterruptMaskFromISR cfg s =
            (csfr s TRICORE_CPU_ICR AND portCCPN_MASK cfg,
             s\<lparr>ie := True, csfr := (csfr s)(TRICORE_CPU_ICR := icr)\<rparr>)
         \<and> icr AND portCCPN_MASK cfg = configMAX_SYSCALL_INTERRUPT_PRIORITY cfg
         \<and> icr AND NOT (portCCPN_MASK cfg) = csfr s TRICORE_CPU_ICR AND NOT (portCCPN_MASK cfg)"
  unfolding uxPortSetInterruptMaskFromISR_explicit
  using field_replace [OF assms] by blast

text \<open>
  C10, as stated, fails: the function does not modify the CCPN field only. Called with
  interrupts disabled, it returns with interrupts enabled.
\<close>

theorem uxPortSetInterruptMaskFromISR_enables_counterexample:
  "ie (snd (uxPortSetInterruptMaskFromISR tc_cfg tc_state)) \<noteq> ie tc_state"
  by (simp add: uxPortSetInterruptMaskFromISR_explicit tc_state_def)

theorem uxPortSetInterruptMaskFromISR_effect_witness:
  "configMAX_SYSCALL_INTERRUPT_PRIORITY tc_cfg AND NOT (portCCPN_MASK tc_cfg) = 0 \<and>
   (\<exists>icr. uxPortSetInterruptMaskFromISR tc_cfg tc_state =
            (csfr tc_state TRICORE_CPU_ICR AND portCCPN_MASK tc_cfg,
             tc_state\<lparr>ie := True, csfr := (csfr tc_state)(TRICORE_CPU_ICR := icr)\<rparr>)
         \<and> icr AND portCCPN_MASK tc_cfg = configMAX_SYSCALL_INTERRUPT_PRIORITY tc_cfg
         \<and> icr AND NOT (portCCPN_MASK tc_cfg)
             = csfr tc_state TRICORE_CPU_ICR AND NOT (portCCPN_MASK tc_cfg))"
proof -
  have p: "configMAX_SYSCALL_INTERRUPT_PRIORITY tc_cfg AND NOT (portCCPN_MASK tc_cfg) = 0"
    by (simp add: tc_cfg_def)
  show ?thesis
    using p uxPortSetInterruptMaskFromISR_effect [OF p, of tc_state] by (rule conjI)
qed

lemma vPortSystemTickHandler_explicit:
  assumes "configMAX_SYSCALL_INTERRUPT_PRIORITY cfg AND NOT (portCCPN_MASK cfg) = 0"
  shows "vPortSystemTickHandler cfg s =
    (let masked = s\<lparr>ie := True, csfr := (csfr s)(TRICORE_CPU_ICR :=
                      (csfr s TRICORE_CPU_ICR AND NOT (portCCPN_MASK cfg))
                        OR configMAX_SYSCALL_INTERRUPT_PRIORITY cfg)\<rparr>;
         s3 = s\<lparr>ie := True, xTickCount := xTickCount s + 1,
                calls := calls s @ [IncrementTick (csfr masked TRICORE_CPU_ICR)]\<rparr>
     in if switch_due cfg masked \<noteq> 0 then prvYield cfg s3 else s3)"
proof -
  have "((csfr s TRICORE_CPU_ICR AND NOT (portCCPN_MASK cfg)
           OR configMAX_SYSCALL_INTERRUPT_PRIORITY cfg) AND NOT (portCCPN_MASK cfg))
          OR (csfr s TRICORE_CPU_ICR AND portCCPN_MASK cfg) = csfr s TRICORE_CPU_ICR"
    by (simp add: field_replace(2) [OF assms] bit.conj_disj_distrib [symmetric])
  then show ?thesis
    by (simp add: vPortSystemTickHandler_def uxPortSetInterruptMaskFromISR_explicit
        xTaskIncrementTick_def portCLEAR_INTERRUPT_MASK_FROM_ISR_def Let_def
        TriCore_mfcr_def TriCore_mtcr_def)
qed

lemma prvYield_calls: "calls (prvYield cfg s) = calls s @ [SwitchContext (pxCurrentTCB (prvYield cfg s))]"
  by (simp add: prvYield_explicit Let_def pxCurrentTCB_def TriCore_mfcr_def)

lemma prvYield_csfr: "csfr (prvYield cfg s) = csfr s"
  by (simp add: prvYield_explicit Let_def)

lemma prvYield_stm: "stm_CMPVAL (prvYield cfg s) = stm_CMPVAL s"
  by (simp add: prvYield_explicit Let_def)

lemma prvYield_tick: "xTickCount (prvYield cfg s) = xTickCount s"
  by (simp add: prvYield_explicit Let_def)

text \<open>
  C8. On a core that has a timer module, and with a priority that fits the CCPN field,
  one run of the tick interrupt handler isrSTM advances the compare value of the core's
  comparator by g_ticksFor1ms (32-bit addition), calls xTaskIncrementTick exactly once,
  with the CCPN field of the interrupt control register at
  configMAX_SYSCALL_INTERRUPT_PRIORITY, restores the register afterwards, and runs prvYield
  (one call of vTaskSwitchContext) if and only if xTaskIncrementTick answered that a
  switch is due.
\<close>

theorem isrSTM_tick:
  fixes cfg s stm
  defines "k \<equiv> g_STMConf_comparator s (portGET_CORE_ID s)"
      and "raised \<equiv> (csfr s TRICORE_CPU_ICR AND NOT (portCCPN_MASK cfg))
                        OR configMAX_SYSCALL_INTERRUPT_PRIORITY cfg"
  defines "armed \<equiv> s\<lparr>stm_CMPVAL := (stm_CMPVAL s)(stm := (stm_CMPVAL s stm)(k :=
                        stm_CMPVAL s stm k + g_ticksFor1ms s))\<rparr>"
  defines "at_call \<equiv> armed\<lparr>ie := True, csfr := (csfr s)(TRICORE_CPU_ICR := raised)\<rparr>"
      and "counted \<equiv> armed\<lparr>ie := True, xTickCount := xTickCount s + 1,
                          calls := calls s @ [IncrementTick raised]\<rparr>"
  assumes core: "portGET_CORE_ID s < length STM" "STM ! portGET_CORE_ID s = Some stm"
      and prio: "configMAX_SYSCALL_INTERRUPT_PRIORITY cfg AND NOT (portCCPN_MASK cfg) = 0"
  shows "\<exists>s'. isrSTM cfg s = Inr s'
          \<and> s' = (if switch_due cfg at_call \<noteq> 0 then prvYield cfg counted else counted)
          \<and> stm_CMPVAL s' stm k = stm_CMPVAL s stm k + g_ticksFor1ms s
          \<and> raised AND portCCPN_MASK cfg = configMAX_SYSCALL_INTERRUPT_PRIORITY cfg
          \<and> csfr s' TRICORE_CPU_ICR = csfr s TRICORE_CPU_ICR
          \<and> xTickCount s' = xTickCount s + 1
          \<and> calls s' = calls s @ IncrementTick raised #
                (if switch_due cfg at_call \<noteq> 0 then [SwitchContext (pxCurrentTCB s')] else [])
          \<and> tick_calls (calls s') = tick_calls (calls s) + 1
          \<and> switch_calls (calls s') =
                switch_calls (calls s) + (if switch_due cfg at_call \<noteq> 0 then 1 else 0)"
proof -
  define s' where "s' = (if switch_due cfg at_call \<noteq> 0 then prvYield cfg counted else counted)"
  have run: "isrSTM cfg s = Inr s'"
    using core
    by (simp add: isrSTM_def vPortSystemTickHandler_explicit [OF prio] Let_def
        IfxStm_increaseCompare_def TriCore_mfcr_def s'_def at_call_def counted_def armed_def
        k_def raised_def)
  have cmp: "stm_CMPVAL s' stm k = stm_CMPVAL s stm k + g_ticksFor1ms s"
    by (simp add: s'_def prvYield_stm counted_def armed_def)
  have cs: "calls s' = calls s @ IncrementTick raised #
                (if switch_due cfg at_call \<noteq> 0 then [SwitchContext (pxCurrentTCB s')] else [])"
    using prvYield_calls [of cfg counted] by (simp add: s'_def counted_def armed_def)
  have t: "tick_calls (calls s') = tick_calls (calls s) + 1"
    and w: "switch_calls (calls s') =
                switch_calls (calls s) + (if switch_due cfg at_call \<noteq> 0 then 1 else 0)"
    unfolding cs by (simp_all add: tick_calls_def switch_calls_def)
  have icr: "csfr s' TRICORE_CPU_ICR = csfr s TRICORE_CPU_ICR"
    by (simp add: s'_def prvYield_csfr counted_def armed_def)
  have tc: "xTickCount s' = xTickCount s + 1"
    by (simp add: s'_def prvYield_tick counted_def armed_def)
  have r: "raised AND portCCPN_MASK cfg = configMAX_SYSCALL_INTERRUPT_PRIORITY cfg"
    unfolding raised_def by (rule field_replace(1) [OF prio])
  from run cmp cs t w icr tc r show ?thesis
    unfolding s'_def [symmetric] by blast
qed

theorem isrSTM_tick_witness:
  "\<exists>s'. isrSTM tc_cfg tc_tick_state = Inr s'
        \<and> stm_CMPVAL s' 0 0 = 100000
        \<and> csfr s' TRICORE_CPU_ICR = 0x00000105
        \<and> xTickCount s' = 2
        \<and> tick_calls (calls s') = 1
        \<and> switch_calls (calls s') = 1"
proof -
  have core: "portGET_CORE_ID tc_tick_state < length STM"
    "STM ! portGET_CORE_ID tc_tick_state = Some 0"
    by (simp_all add: portGET_CORE_ID_def STM_def tc_tick_state_def tc_switch_state_def
        TriCore_mfcr_def)
  have prio: "configMAX_SYSCALL_INTERRUPT_PRIORITY tc_cfg AND NOT (portCCPN_MASK tc_cfg) = 0"
    by (simp add: tc_cfg_def)
  have v: "g_STMConf_comparator tc_tick_state (portGET_CORE_ID tc_tick_state) = 0"
    "stm_CMPVAL tc_tick_state 0 0 = 0" "g_ticksFor1ms tc_tick_state = 100000"
    "csfr tc_tick_state TRICORE_CPU_ICR = 0x00000105" "xTickCount tc_tick_state = 1"
    "calls tc_tick_state = []"
    by (simp_all add: tc_tick_state_def tc_switch_state_def tc_state_def)
  have due: "switch_due tc_cfg s = xTickCount s AND 1" for s
    by (simp add: tc_cfg_def)
  from isrSTM_tick [OF core prio] obtain s' where
    "isrSTM tc_cfg tc_tick_state = Inr s'"
    "stm_CMPVAL s' 0 0 = 100000"
    "csfr s' TRICORE_CPU_ICR = 0x00000105"
    "xTickCount s' = 2"
    "tick_calls (calls s') = 1"
    "switch_calls (calls s') = 1"
    by (auto simp: v due tick_calls_def switch_calls_def)
  then show ?thesis by blast
qed

lemma last_selected_append_switch [simp]:
  "last_selected (cs @ [SwitchContext t]) = Some t"
  by (induction cs) simp_all

lemma last_selected_append_tick [simp]:
  "last_selected (cs @ [IncrementTick v]) = last_selected cs"
  by (induction cs) (simp_all split: option.splits)

lemma prvYield_selected:
  "last_selected (calls (prvYield cfg s)) = Some (pxCurrentTCB (prvYield cfg s))"
  by (subst prvYield_calls) simp

lemma prvYield_installed:
  "installed cfg (prvYield cfg s) = mem (prvYield cfg s) (pxCurrentTCB (prvYield cfg s))"
  by (simp add: installed_def prvYield_explicit Let_def pxCurrentTCB_def TriCore_mfcr_def)

lemma prvYield_inv: "current_is_last_selected (prvYield cfg s)"
  by (simp add: current_is_last_selected_def prvYield_selected)

lemma vPortSystemTickHandler_cases:
  "\<exists>s3. calls s3 = calls s @ [IncrementTick ((csfr s TRICORE_CPU_ICR AND NOT (portCCPN_MASK cfg))
                     OR configMAX_SYSCALL_INTERRUPT_PRIORITY cfg)]
       \<and> pxCurrentTCB s3 = pxCurrentTCB s
       \<and> (vPortSystemTickHandler cfg s = s3 \<or> vPortSystemTickHandler cfg s = prvYield cfg s3)"
proof -
  define raised where "raised = (csfr s TRICORE_CPU_ICR AND NOT (portCCPN_MASK cfg))
                     OR configMAX_SYSCALL_INTERRUPT_PRIORITY cfg"
  define s3 where "s3 = s\<lparr>ie := True, xTickCount := xTickCount s + 1,
      calls := calls s @ [IncrementTick raised],
      csfr := (csfr s)(TRICORE_CPU_ICR :=
         (raised AND NOT (portCCPN_MASK cfg)) OR (csfr s TRICORE_CPU_ICR AND portCCPN_MASK cfg))\<rparr>"
  have "vPortSystemTickHandler cfg s = s3 \<or> vPortSystemTickHandler cfg s = prvYield cfg s3"
    by (simp add: vPortSystemTickHandler_def uxPortSetInterruptMaskFromISR_explicit
      xTaskIncrementTick_def portCLEAR_INTERRUPT_MASK_FROM_ISR_def Let_def
      TriCore_mfcr_def TriCore_mtcr_def s3_def raised_def)
  moreover have "calls s3 = calls s @ [IncrementTick raised]" "pxCurrentTCB s3 = pxCurrentTCB s"
    by (simp_all add: s3_def pxCurrentTCB_def TriCore_mfcr_def)
  ultimately show ?thesis unfolding raised_def by blast
qed

lemma tick_inv:
  assumes "current_is_last_selected s"
  shows "current_is_last_selected (vPortSystemTickHandler cfg s)"
proof -
  from vPortSystemTickHandler_cases [of s cfg] obtain s3 where
    c: "calls s3 = calls s @ [IncrementTick ((csfr s TRICORE_CPU_ICR AND NOT (portCCPN_MASK cfg))
                     OR configMAX_SYSCALL_INTERRUPT_PRIORITY cfg)]"
    and p: "pxCurrentTCB s3 = pxCurrentTCB s"
    and r: "vPortSystemTickHandler cfg s = s3 \<or> vPortSystemTickHandler cfg s = prvYield cfg s3"
    by blast
  have "current_is_last_selected s3"
    using assms by (simp add: current_is_last_selected_def c p)
  with r show ?thesis by (auto simp: prvYield_inv)
qed

lemma instr_frame_inv:
  assumes "instr_frame cfg" "TriCore_svlcx cfg s = Inr s' \<or> TriCore_rslcx cfg s = Inr s'"
  shows "current_is_last_selected s' = current_is_last_selected s"
    and "pxCurrentTCB s' = pxCurrentTCB s" and "calls s' = calls s"
proof -
  from assms have f: "pxCurrentTCBs s' = pxCurrentTCBs s"
    "csfr s' TRICORE_CPU_CORE_ID = csfr s TRICORE_CPU_CORE_ID" "calls s' = calls s"
    unfolding instr_frame_def by blast+
  then show "pxCurrentTCB s' = pxCurrentTCB s" "calls s' = calls s"
    by (simp_all add: pxCurrentTCB_def TriCore_mfcr_def)
  then show "current_is_last_selected s' = current_is_last_selected s"
    by (simp add: current_is_last_selected_def)
qed

lemma step_inv:
  assumes "instr_frame cfg" "current_is_last_selected s" "switch_step cfg e s = Inr s'"
  shows "current_is_last_selected s'"
proof (cases e)
  case Yield
  with assms(3) obtain s1 where a: "TriCore_svlcx cfg s = Inr s1"
    and b: "TriCore_rslcx cfg (prvYield cfg s1) = Inr s'"
    by (auto simp: vPortYield_def vPortSystemTaskHandler_def split: sum.splits)
  from instr_frame_inv(1) [OF assms(1), of "prvYield cfg s1" s'] b show ?thesis
    by (simp add: prvYield_inv)
next
  case (TrapYield i)
  with assms(3) show ?thesis
    by (auto simp: vTrapYield_def prvYield_inv split: if_splits)
next
  case Tick
  with assms(2,3) show ?thesis by (auto simp: tick_inv)
qed

lemma run_inv:
  assumes "instr_frame cfg"
  shows "current_is_last_selected s \<Longrightarrow> switch_run cfg es s = Inr s' \<Longrightarrow> current_is_last_selected s'"
proof (induction es arbitrary: s)
  case Nil
  then show ?case by simp
next
  case (Cons e es)
  from Cons.prems(2) obtain s1 where s1: "switch_step cfg e s = Inr s1" and r: "switch_run cfg es s1 = Inr s'"
    by (auto split: sum.splits)
  from step_inv [OF assms Cons.prems(1) s1] r show ?case by (rule Cons.IH)
qed

lemma prvYield_switch_done: "switch_done cfg s (prvYield cfg s)"
  by (simp add: switch_done_def select_view_def installed_def prvYield_explicit Let_def
      pxCurrentTCB_def TriCore_mfcr_def)

lemma vPortSystemTickHandler_closed:
  "vPortSystemTickHandler cfg s =
     (if switch_due cfg (tick_at_call cfg s) \<noteq> 0 then prvYield cfg (tick_counted cfg s)
      else tick_counted cfg s)"
  by (simp add: vPortSystemTickHandler_def uxPortSetInterruptMaskFromISR_explicit
      xTaskIncrementTick_def portCLEAR_INTERRUPT_MASK_FROM_ISR_def Let_def
      TriCore_mfcr_def TriCore_mtcr_def tick_at_call_def tick_counted_def tick_raised_def)

lemma switch_done_frame:
  assumes "instr_frame cfg" "calls s1 = calls s" "switch_done cfg s1 s2" "TriCore_rslcx cfg s2 = Inr s'"
  shows "pxCurrentTCB s' = next_task cfg (select_view cfg s1)"
    and "calls s' = calls s @ [SwitchContext (pxCurrentTCB s')]"
    and "last_selected (calls s') = Some (pxCurrentTCB s')"
proof -
  from instr_frame_inv(2,3) [OF assms(1), of s2 s'] assms(4)
  have p: "pxCurrentTCB s' = pxCurrentTCB s2" and c: "calls s' = calls s2" by simp_all
  from assms(3) show "pxCurrentTCB s' = next_task cfg (select_view cfg s1)"
    by (simp add: switch_done_def p)
  from assms(2,3) show "calls s' = calls s @ [SwitchContext (pxCurrentTCB s')]"
    by (simp add: switch_done_def p c)
  from assms(3) show "last_selected (calls s') = Some (pxCurrentTCB s')"
    by (simp add: switch_done_def p c)
qed

text \<open>
  C4. Take any sequence of voluntary yields, yield traps and ticks on a core that ran to
  its end, in a state \<open>s\<close>. Then the current task pointer is the one set by the last call
  of vTaskSwitchContext. Whichever way the next switch is entered from \<open>s\<close>, it is a
  completed switch in the sense of \<open>switch_done\<close>: the yield trap with the yield
  identification always returns, and its outcome has as current task the task that
  vTaskSwitchContext selected in this switch, logged as the last call, with that task's
  saved-context field installed for resumption; any other trap identification does not
  return. The tick handler always returns; when the tick accounting answers that a switch
  is due the outcome is such a completed switch entered after the accounting, and
  otherwise no task is selected and the state is the one after the accounting. For
  vPortYield, when SVLCX gives \<open>s1\<close>, prvYield completes the switch entered in \<open>s1\<close> and
  hands its outcome to RSLCX, and after RSLCX the current task pointer is still the task
  selected in this switch and its selection is the last entry of the call log; when SVLCX
  traps, vPortYield ends in that trap.
\<close>

theorem switches_keep_current_task:
  assumes "instr_frame cfg" "current_is_last_selected s0" "switch_run cfg evs s0 = Inr s"
  shows "current_is_last_selected s
       \<and> (\<forall>i s'. switch_step cfg (TrapYield i) s = Inr s' \<longrightarrow>
             i = portSYSCALL_TASK_YIELD cfg \<and> switch_done cfg s s')
       \<and> (\<exists>s'. switch_step cfg (TrapYield (portSYSCALL_TASK_YIELD cfg)) s = Inr s')
       \<and> (\<exists>s'. switch_step cfg Tick s = Inr s'
             \<and> (if switch_due cfg (tick_at_call cfg s) \<noteq> 0
                 then switch_done cfg (tick_counted cfg s) s'
                 else s' = tick_counted cfg s))
       \<and> (\<forall>s1. TriCore_svlcx cfg s = Inr s1 \<longrightarrow>
             switch_done cfg s1 (prvYield cfg s1)
             \<and> switch_step cfg Yield s = TriCore_rslcx cfg (prvYield cfg s1)
             \<and> (\<forall>s'. switch_step cfg Yield s = Inr s' \<longrightarrow>
                   pxCurrentTCB s' = next_task cfg (select_view cfg s1)
                   \<and> calls s' = calls s @ [SwitchContext (pxCurrentTCB s')]
                   \<and> last_selected (calls s') = Some (pxCurrentTCB s')))
       \<and> (\<forall>t. TriCore_svlcx cfg s = Inl t \<longrightarrow> switch_step cfg Yield s = Inl t)"
proof -
  have A: "current_is_last_selected s"
    using assms by (rule run_inv)
  have B: "i = portSYSCALL_TASK_YIELD cfg \<and> switch_done cfg s s'"
    if "switch_step cfg (TrapYield i) s = Inr s'" for i s'
    using that prvYield_switch_done [of cfg s] by (auto simp: vTrapYield_def split: if_splits)
  have C: "\<exists>s'. switch_step cfg (TrapYield (portSYSCALL_TASK_YIELD cfg)) s = Inr s'"
    by (simp add: vTrapYield_def)
  have D: "\<exists>s'. switch_step cfg Tick s = Inr s'
             \<and> (if switch_due cfg (tick_at_call cfg s) \<noteq> 0
                 then switch_done cfg (tick_counted cfg s) s'
                 else s' = tick_counted cfg s)"
    using prvYield_switch_done [of cfg "tick_counted cfg s"]
    by (simp add: vPortSystemTickHandler_closed)
  have E: "switch_done cfg s1 (prvYield cfg s1)
             \<and> switch_step cfg Yield s = TriCore_rslcx cfg (prvYield cfg s1)
             \<and> (\<forall>s'. switch_step cfg Yield s = Inr s' \<longrightarrow>
                   pxCurrentTCB s' = next_task cfg (select_view cfg s1)
                   \<and> calls s' = calls s @ [SwitchContext (pxCurrentTCB s')]
                   \<and> last_selected (calls s') = Some (pxCurrentTCB s'))"
    if sv: "TriCore_svlcx cfg s = Inr s1" for s1
  proof -
    have d: "switch_done cfg s1 (prvYield cfg s1)" by (rule prvYield_switch_done)
    have y: "switch_step cfg Yield s = TriCore_rslcx cfg (prvYield cfg s1)"
      by (simp add: vPortYield_def vPortSystemTaskHandler_def sv)
    have c: "calls s1 = calls s"
      using instr_frame_inv(3) [OF assms(1), of s s1] sv by simp
    have "pxCurrentTCB s' = next_task cfg (select_view cfg s1)
                   \<and> calls s' = calls s @ [SwitchContext (pxCurrentTCB s')]
                   \<and> last_selected (calls s') = Some (pxCurrentTCB s')"
      if "switch_step cfg Yield s = Inr s'" for s'
      using switch_done_frame [OF assms(1) c d, of s'] that y by simp
    with d y show ?thesis by blast
  qed
  have F: "switch_step cfg Yield s = Inl t" if "TriCore_svlcx cfg s = Inl t" for t
    using that by (simp add: vPortYield_def)
  from A B C D E F show ?thesis by blast
qed

lemma tc_instr_frame: "instr_frame tc_cfg"
  by (auto simp: instr_frame_def tc_cfg_def tc_svlcx_def tc_rslcx_def Let_def split: if_splits)

lemma tc_first_switch:
  "pxCurrentTCB (prvYield tc_cfg tc_switch_state) = 0x2000"
  "calls (prvYield tc_cfg tc_switch_state) = [SwitchContext 0x2000]"
  "mem (prvYield tc_cfg tc_switch_state) 0x1000 = 0x00370005"
  "mem (prvYield tc_cfg tc_switch_state) 0x2000 = 0x00370007"
  "mem (prvYield tc_cfg tc_switch_state) 0x70000040 = 0x00370007"
  "csfr (prvYield tc_cfg tc_switch_state) = csfr tc_switch_state"
  "pxCurrentTCBs (prvYield tc_cfg tc_switch_state) = (\<lambda>c. 0)(0 := 0x2000)"
  by (simp_all add: prvYield_explicit Let_def tc_switch_state_def tc_state_def tc_cfg_def
      pxCurrentTCB_def TriCore_mfcr_def tc_CSA_TO_ADDRESS_def)

lemma tc_second_switch:
  "pxCurrentTCB (prvYield tc_cfg (prvYield tc_cfg tc_switch_state)) = 0x1000"
  "calls (prvYield tc_cfg (prvYield tc_cfg tc_switch_state))
     = [SwitchContext 0x2000, SwitchContext 0x1000]"
  "installed tc_cfg (prvYield tc_cfg (prvYield tc_cfg tc_switch_state)) = 0x00370005"
  "mem (prvYield tc_cfg (prvYield tc_cfg tc_switch_state)) 0x1000 = 0x00370005"
proof -
  let ?s1 = "prvYield tc_cfg tc_switch_state"
  have a: "portCSA_TO_ADDRESS tc_cfg (csfr ?s1 TRICORE_CPU_PCXI) = 0x70000040"
    by (simp add: tc_first_switch(6)) (simp add: tc_switch_state_def tc_cfg_def tc_CSA_TO_ADDRESS_def)
  have c: "csfr ?s1 TRICORE_CPU_CORE_ID = 0"
    by (simp add: tc_first_switch(6)) (simp add: tc_switch_state_def)
  have n: "next_task tc_cfg x = (if pxCurrentTCB x = 0x1000 then 0x2000 else 0x1000)" for x
    by (simp add: tc_cfg_def)
  have p: "pxCurrentTCB ?s1 = 0x2000" by (rule tc_first_switch(1))
  have p': "pxCurrentTCBs ?s1 0 = 0x2000" by (simp add: tc_first_switch(7))
  show "pxCurrentTCB (prvYield tc_cfg ?s1) = 0x1000"
    by (simp add: prvYield_explicit [of tc_cfg ?s1] Let_def a c n p p' pxCurrentTCB_def
        TriCore_mfcr_def tc_first_switch(2-5))
  show "calls (prvYield tc_cfg ?s1) = [SwitchContext 0x2000, SwitchContext 0x1000]"
    by (simp add: prvYield_explicit [of tc_cfg ?s1] Let_def a c n p p' pxCurrentTCB_def
        TriCore_mfcr_def tc_first_switch(2-5))
  show "installed tc_cfg (prvYield tc_cfg ?s1) = 0x00370005"
    by (simp add: installed_def prvYield_explicit [of tc_cfg ?s1] Let_def a c n p p'
        pxCurrentTCB_def TriCore_mfcr_def tc_first_switch(2-5))
  show "mem (prvYield tc_cfg ?s1) 0x1000 = 0x00370005"
    by (simp add: prvYield_explicit [of tc_cfg ?s1] Let_def a c n p p' pxCurrentTCB_def
        TriCore_mfcr_def tc_first_switch(2-5))
qed

theorem switches_keep_current_task_witness:
  "switch_run tc_cfg [TrapYield 0] tc_switch_state = Inr (prvYield tc_cfg tc_switch_state)
   \<and> current_is_last_selected (prvYield tc_cfg tc_switch_state)
   \<and> (\<exists>s'. switch_step tc_cfg (TrapYield 0) (prvYield tc_cfg tc_switch_state) = Inr s'
          \<and> switch_done tc_cfg (prvYield tc_cfg tc_switch_state) s'
          \<and> pxCurrentTCB s' = 0x1000
          \<and> calls s' = [SwitchContext 0x2000, SwitchContext 0x1000]
          \<and> installed tc_cfg s' = 0x00370005
          \<and> mem s' (pxCurrentTCB s') = 0x00370005)
   \<and> (\<exists>s'. switch_step tc_cfg Tick (prvYield tc_cfg tc_switch_state) = Inr s'
          \<and> s' = tick_counted tc_cfg (prvYield tc_cfg tc_switch_state))
   \<and> switch_step tc_cfg Yield (prvYield tc_cfg tc_switch_state) = Inl ContextListDepletion"
proof -
  let ?s = "prvYield tc_cfg tc_switch_state"
  have i: "current_is_last_selected tc_switch_state"
    by (simp add: current_is_last_selected_def tc_switch_state_def tc_state_def)
  have y: "portSYSCALL_TASK_YIELD tc_cfg = 0"
    by (simp add: tc_cfg_def)
  have r: "switch_run tc_cfg [TrapYield 0] tc_switch_state = Inr ?s"
    by (simp add: vTrapYield_def y)
  note inst = switches_keep_current_task [OF tc_instr_frame i r]
  have one: "current_is_last_selected ?s" using inst by blast
  have st: "switch_step tc_cfg (TrapYield 0) ?s = Inr (prvYield tc_cfg ?s)"
    by (simp add: vTrapYield_def y)
  with inst have sd: "switch_done tc_cfg ?s (prvYield tc_cfg ?s)" by blast
  have two: "\<exists>s'. switch_step tc_cfg (TrapYield 0) ?s = Inr s'
          \<and> switch_done tc_cfg ?s s'
          \<and> pxCurrentTCB s' = 0x1000
          \<and> calls s' = [SwitchContext 0x2000, SwitchContext 0x1000]
          \<and> installed tc_cfg s' = 0x00370005
          \<and> mem s' (pxCurrentTCB s') = 0x00370005"
    using st sd tc_second_switch by (intro exI [of _ "prvYield tc_cfg ?s"]) simp
  have nd: "switch_due tc_cfg (tick_at_call tc_cfg ?s) = 0"
    by (simp add: tc_cfg_def tick_at_call_def prvYield_tick) (simp add: tc_switch_state_def tc_state_def)
  from inst obtain s' where "switch_step tc_cfg Tick ?s = Inr s'"
    "if switch_due tc_cfg (tick_at_call tc_cfg ?s) \<noteq> 0
       then switch_done tc_cfg (tick_counted tc_cfg ?s) s' else s' = tick_counted tc_cfg ?s"
    by blast
  with nd have three: "\<exists>s'. switch_step tc_cfg Tick ?s = Inr s' \<and> s' = tick_counted tc_cfg ?s"
    by simp
  have sv: "TriCore_svlcx tc_cfg ?s = Inl ContextListDepletion"
    by (simp add: tc_cfg_def tc_svlcx_def Let_def tc_first_switch(6) prvYield_explicit)
       (simp add: tc_switch_state_def tc_state_def tc_CSA_TO_ADDRESS_def pxCurrentTCB_def
          TriCore_mfcr_def)
  with inst have four: "switch_step tc_cfg Yield ?s = Inl ContextListDepletion" by blast
  from r one two three four show ?thesis by blast
qed

section \<open>The Free Pool: exhaustion and round trip\<close>

lemma csa_self: "a \<in> set (csa_words a)"
  using word_at_in_csa [of 0 a] by simp

lemma records_disjoint_Cons:
  "records_disjoint (a # as) \<Longrightarrow> records_disjoint as"
  by (simp add: records_disjoint_def)

lemma records_disjoint_head:
  assumes "records_disjoint (a # as)" "b \<in> set as"
  shows "csa_disjoint a b" "b \<notin> set (csa_words a)" "a \<notin> set (csa_words b)" "a \<noteq> b"
proof -
  from assms show d: "csa_disjoint a b"
    by (auto simp: records_disjoint_def csa_disjoint_def)
  from d csa_self [of b] show "b \<notin> set (csa_words a)"
    unfolding csa_disjoint_def by blast
  from d csa_self [of a] show "a \<notin> set (csa_words b)"
    unfolding csa_disjoint_def by blast
  then show "a \<noteq> b" using csa_self [of a] by auto
qed

lemma records_disjoint_distinct: "records_disjoint as \<Longrightarrow> distinct as"
proof (induction as)
  case Nil
  then show ?case by simp
next
  case (Cons a as)
  then show ?case
    using records_disjoint_head(4) [OF Cons.prems] records_disjoint_Cons [OF Cons.prems]
    by auto
qed

lemma pxPortInitialiseStack_built:
  assumes "\<not> csa_depleted cfg s"
  shows "pxPortInitialiseStack cfg s pxTopOfStack pxCode pvParameters =
           Inr (portADDRESS_TO_CSA cfg (portCSA_TO_ADDRESS cfg (csfr s TRICORE_CPU_FCX)),
                built cfg s pxTopOfStack pxCode pvParameters)"
  using assms
  by (simp add: csa_depleted_def pxPortInitialiseStack_def built_def Let_def init_records_def
      portENTER_CRITICAL_def portEXIT_CRITICAL_def TriCore_mfcr_def TriCore_mtcr_def
      TriCore_enable_def TriCore_disable_def portNUM_WORDS_IN_CSA_def)

lemma pxPortInitialiseStack_depleted:
  assumes "csa_depleted cfg s"
  shows "pxPortInitialiseStack cfg s pxTopOfStack pxCode pvParameters =
           (case TriCore_svlcx cfg (portENTER_CRITICAL s) of
              Inl t \<Rightarrow> Inl t
            | Inr s2 \<Rightarrow> pxPortInitialiseStack cfg s pxTopOfStack pxCode pvParameters)"
  using assms
  by (auto simp: csa_depleted_def pxPortInitialiseStack_def Let_def
      portENTER_CRITICAL_def TriCore_mfcr_def split: sum.splits)

lemma csa_depleted_critical [simp]:
  "csa_depleted cfg (portENTER_CRITICAL s) = csa_depleted cfg s"
  by (simp add: csa_depleted_def portENTER_CRITICAL_def)

lemma pxPortInitialiseStack_traps:
  assumes "svlcx_traps_on_depletion cfg" "csa_depleted cfg s"
  shows "\<exists>t. TriCore_svlcx cfg (portENTER_CRITICAL s) = Inl t
           \<and> pxPortInitialiseStack cfg s pxTopOfStack pxCode pvParameters = Inl t"
proof -
  from assms obtain t where t: "TriCore_svlcx cfg (portENTER_CRITICAL s) = Inl t"
    unfolding svlcx_traps_on_depletion_def by (metis csa_depleted_critical)
  with pxPortInitialiseStack_depleted [OF assms(2)] show ?thesis by simp
qed

lemma built_frame:
  assumes "x \<notin> set (csa_words (portCSA_TO_ADDRESS cfg (csfr s TRICORE_CPU_FCX)))"
    "x \<notin> set (csa_words (portCSA_TO_ADDRESS cfg
              (mem s (portCSA_TO_ADDRESS cfg (csfr s TRICORE_CPU_FCX)))))"
  shows "mem (built cfg s pxTopOfStack pxCode pvParameters) x = mem s x"
  using assms by (simp add: built_def Let_def init_records_frame)

lemma built_fcx:
  "csfr (built cfg s pxTopOfStack pxCode pvParameters) TRICORE_CPU_FCX =
     mem s (portCSA_TO_ADDRESS cfg (mem s (portCSA_TO_ADDRESS cfg (csfr s TRICORE_CPU_FCX))))"
  by (simp add: built_def Let_def)

lemma free_pool_Cons2:
  "free_pool cfg s (lo # up # rest) \<longleftrightarrow>
     portCSA_TO_ADDRESS cfg (csfr s TRICORE_CPU_FCX) = lo \<and> lo \<noteq> 0 \<and>
     portCSA_TO_ADDRESS cfg (mem s lo) = up \<and> up \<noteq> 0 \<and>
     (case follow cfg (mem s) (mem s up) rest of None \<Rightarrow> False
      | Some c \<Rightarrow> portCSA_TO_ADDRESS cfg c = 0)"
  by (auto simp: free_pool_def)

lemma free_pool_Nil: "free_pool cfg s [] \<longleftrightarrow> portCSA_TO_ADDRESS cfg (csfr s TRICORE_CPU_FCX) = 0"
  by (simp add: free_pool_def)

lemma build_takes_two:
  assumes pool: "free_pool cfg s (lo # up # rest)" and dj: "records_disjoint (lo # up # rest)"
  shows "pxPortInitialiseStack cfg s pxTopOfStack pxCode pvParameters =
           Inr (portADDRESS_TO_CSA cfg lo, built cfg s pxTopOfStack pxCode pvParameters)"
    and "free_pool cfg (built cfg s pxTopOfStack pxCode pvParameters) rest"
proof -
  from pool have lo: "portCSA_TO_ADDRESS cfg (csfr s TRICORE_CPU_FCX) = lo" "lo \<noteq> 0"
    and up: "portCSA_TO_ADDRESS cfg (mem s lo) = up" "up \<noteq> 0"
    and rest: "case follow cfg (mem s) (mem s up) rest of None \<Rightarrow> False
      | Some c \<Rightarrow> portCSA_TO_ADDRESS cfg c = 0"
    by (simp_all add: free_pool_Cons2)
  have nd: "\<not> csa_depleted cfg s"
    using lo up by (simp add: csa_depleted_def)
  show "pxPortInitialiseStack cfg s pxTopOfStack pxCode pvParameters =
           Inr (portADDRESS_TO_CSA cfg lo, built cfg s pxTopOfStack pxCode pvParameters)"
    using pxPortInitialiseStack_built [OF nd] lo by simp
  have out: "\<And>x. x \<in> set rest \<Longrightarrow> x \<notin> set (csa_words lo) \<and> x \<notin> set (csa_words up)"
    using records_disjoint_head(2) [OF dj]
      records_disjoint_head(2) [OF records_disjoint_Cons [OF dj]] by auto
  have "follow cfg (mem (built cfg s pxTopOfStack pxCode pvParameters)) (mem s up) rest
          = follow cfg (mem s) (mem s up) rest"
    by (rule follow_cong) (use out lo up in \<open>simp add: built_frame\<close>)
  with rest show "free_pool cfg (built cfg s pxTopOfStack pxCode pvParameters) rest"
    by (simp add: free_pool_def built_fcx lo up)
qed

text \<open>
  C5. Let SVLCX trap when the free list cannot supply two records. Whenever the address
  of the head record of the free list is null, or the address of the record it links to is
  null, pxPortInitialiseStack executes SVLCX on registers and memory as they were on entry
  and ends in that trap: it returns no handle and has written nothing. In particular, from a
  Free Pool of exactly four records, two builds succeed, taking the first and the second
  pair, the pool is then empty, and a third build ends in the trap.
\<close>

theorem pxPortInitialiseStack_pool_exhaustion:
  assumes "svlcx_traps_on_depletion cfg"
  shows "(csa_depleted cfg s \<longrightarrow>
            (\<exists>t. TriCore_svlcx cfg (portENTER_CRITICAL s) = Inl t
                \<and> pxPortInitialiseStack cfg s a b c = Inl t))
       \<and> (free_pool cfg s [r1, r2, r3, r4] \<and> records_disjoint [r1, r2, r3, r4] \<longrightarrow>
            (\<exists>s1 s2 t. pxPortInitialiseStack cfg s a1 b1 c1 = Inr (portADDRESS_TO_CSA cfg r1, s1)
                \<and> pxPortInitialiseStack cfg s1 a2 b2 c2 = Inr (portADDRESS_TO_CSA cfg r3, s2)
                \<and> free_pool cfg s2 []
                \<and> pxPortInitialiseStack cfg s2 a3 b3 c3 = Inl t))"
proof (intro conjI impI)
  assume "csa_depleted cfg s"
  with assms show "\<exists>t. TriCore_svlcx cfg (portENTER_CRITICAL s) = Inl t
                \<and> pxPortInitialiseStack cfg s a b c = Inl t"
    by (rule pxPortInitialiseStack_traps)
next
  assume a: "free_pool cfg s [r1, r2, r3, r4] \<and> records_disjoint [r1, r2, r3, r4]"
  define s1 where "s1 = built cfg s a1 b1 c1"
  define s2 where "s2 = built cfg s1 a2 b2 c2"
  from a have p: "free_pool cfg s [r1, r2, r3, r4]" and d: "records_disjoint [r1, r2, r3, r4]"
    by simp_all
  have b1: "pxPortInitialiseStack cfg s a1 b1 c1 = Inr (portADDRESS_TO_CSA cfg r1, s1)"
    and p1: "free_pool cfg s1 [r3, r4]"
    unfolding s1_def using build_takes_two [OF p d] by simp_all
  have d1: "records_disjoint [r3, r4]"
    using d by (blast dest: records_disjoint_Cons)
  have b2: "pxPortInitialiseStack cfg s1 a2 b2 c2 = Inr (portADDRESS_TO_CSA cfg r3, s2)"
    and p2: "free_pool cfg s2 []"
    unfolding s2_def using build_takes_two [OF p1 d1] by simp_all
  from p2 have "csa_depleted cfg s2"
    by (simp add: free_pool_Nil csa_depleted_def)
  with assms obtain t where "pxPortInitialiseStack cfg s2 a3 b3 c3 = Inl t"
    using pxPortInitialiseStack_traps by blast
  with b1 b2 p2 show "\<exists>s1 s2 t. pxPortInitialiseStack cfg s a1 b1 c1 = Inr (portADDRESS_TO_CSA cfg r1, s1)
                \<and> pxPortInitialiseStack cfg s1 a2 b2 c2 = Inr (portADDRESS_TO_CSA cfg r3, s2)
                \<and> free_pool cfg s2 []
                \<and> pxPortInitialiseStack cfg s2 a3 b3 c3 = Inl t"
    by blast
qed

lemma tc_svlcx_traps: "svlcx_traps_on_depletion tc_cfg"
  by (simp add: svlcx_traps_on_depletion_def csa_depleted_def tc_cfg_def tc_svlcx_def)

lemma tc_state_pool:
  "free_pool tc_cfg tc_state [0x70000040, 0x70000080, 0x700000C0, 0x70000100]"
proof -
  have c: "portCSA_TO_ADDRESS tc_cfg = tc_CSA_TO_ADDRESS"
    by (simp add: tc_cfg_def)
  have a: "tc_CSA_TO_ADDRESS 0x00070001 = 0x70000040" "tc_CSA_TO_ADDRESS 0x00070002 = 0x70000080"
    "tc_CSA_TO_ADDRESS 0x00070003 = 0x700000C0" "tc_CSA_TO_ADDRESS 0x00070004 = 0x70000100"
    "tc_CSA_TO_ADDRESS 0 = 0"
    by (simp_all add: tc_CSA_TO_ADDRESS_def)
  show ?thesis
    by (simp add: free_pool_def c tc_state_def a)
qed

lemma tc_arena_disjoint:
  "records_disjoint [0x70000040, 0x70000080, 0x700000C0, 0x70000100]"
  by (simp add: records_disjoint_def csa_words_def portNUM_WORDS_IN_CSA_def upt_16 word_at_def)

theorem pxPortInitialiseStack_pool_exhaustion_witness:
  "csa_depleted tc_cfg (tc_state\<lparr>csfr := (\<lambda>r. 0)\<rparr>)
   \<and> (\<exists>t. pxPortInitialiseStack tc_cfg (tc_state\<lparr>csfr := (\<lambda>r. 0)\<rparr>) 0x50001000 0x80002000 0x2A
            = Inl t)
   \<and> (\<exists>s1 s2 t.
        pxPortInitialiseStack tc_cfg tc_state 0x50001000 0x80002000 1
          = Inr (portADDRESS_TO_CSA tc_cfg 0x70000040, s1)
      \<and> pxPortInitialiseStack tc_cfg s1 0x50002000 0x80002000 2
          = Inr (portADDRESS_TO_CSA tc_cfg 0x700000C0, s2)
      \<and> free_pool tc_cfg s2 []
      \<and> pxPortInitialiseStack tc_cfg s2 0x50003000 0x80002000 3 = Inl t)"
proof -
  have d: "csa_depleted tc_cfg (tc_state\<lparr>csfr := (\<lambda>r. 0)\<rparr>)"
    by (simp add: csa_depleted_def tc_cfg_def tc_CSA_TO_ADDRESS_def)
  from pxPortInitialiseStack_pool_exhaustion [OF tc_svlcx_traps,
      of "tc_state\<lparr>csfr := (\<lambda>r. 0)\<rparr>" "0x50001000" "0x80002000" "0x2A"] d
  have one: "\<exists>t. pxPortInitialiseStack tc_cfg (tc_state\<lparr>csfr := (\<lambda>r. 0)\<rparr>)
       0x50001000 0x80002000 0x2A = Inl t"
    by blast
  from pxPortInitialiseStack_pool_exhaustion [OF tc_svlcx_traps,
      where s = tc_state and ?r1.0 = "0x70000040" and ?r2.0 = "0x70000080"
        and ?r3.0 = "0x700000C0" and ?r4.0 = "0x70000100"
        and ?a1.0 = "0x50001000" and ?b1.0 = "0x80002000" and ?c1.0 = 1
        and ?a2.0 = "0x50002000" and ?b2.0 = "0x80002000" and ?c2.0 = 2
        and ?a3.0 = "0x50003000" and ?b3.0 = "0x80002000" and ?c3.0 = 3]
    tc_state_pool tc_arena_disjoint
  have two: "\<exists>s1 s2 t.
        pxPortInitialiseStack tc_cfg tc_state 0x50001000 0x80002000 1
          = Inr (portADDRESS_TO_CSA tc_cfg 0x70000040, s1)
      \<and> pxPortInitialiseStack tc_cfg s1 0x50002000 0x80002000 2
          = Inr (portADDRESS_TO_CSA tc_cfg 0x700000C0, s2)
      \<and> free_pool tc_cfg s2 []
      \<and> pxPortInitialiseStack tc_cfg s2 0x50003000 0x80002000 3 = Inl t"
    by blast
  from d one two show ?thesis by blast
qed

lemma follow_append:
  "follow cfg m c (as @ bs) =
     (case follow cfg m c as of None \<Rightarrow> None | Some c' \<Rightarrow> follow cfg m c' bs)"
  by (induction as arbitrary: c) auto

lemma follow_nonzero: "follow cfg m c as = Some c' \<Longrightarrow> 0 \<notin> set as"
  by (induction as arbitrary: c) (auto split: if_splits)

lemma free_pool_nonzero: "free_pool cfg s as \<Longrightarrow> 0 \<notin> set as"
  by (auto simp: free_pool_def split: option.splits dest: follow_nonzero)

lemma free_pool_cong:
  assumes "\<And>x. x \<in> set as \<Longrightarrow> mem s' x = mem s x"
    and "csfr s' TRICORE_CPU_FCX = csfr s TRICORE_CPU_FCX"
  shows "free_pool cfg s' as = free_pool cfg s as"
proof -
  have "follow cfg (mem s') (csfr s TRICORE_CPU_FCX) as = follow cfg (mem s) (csfr s TRICORE_CPU_FCX) as"
    using assms(1) by (rule follow_cong)
  then show ?thesis by (simp add: free_pool_def assms(2))
qed

lemma free_pool_unique:
  "free_pool cfg s as \<Longrightarrow> free_pool cfg s bs \<Longrightarrow> as = bs"
proof -
  have "follow cfg m c as = Some c1 \<Longrightarrow> portCSA_TO_ADDRESS cfg c1 = 0 \<Longrightarrow>
        follow cfg m c bs = Some c2 \<Longrightarrow> portCSA_TO_ADDRESS cfg c2 = 0 \<Longrightarrow> as = bs"
    for m c c1 c2
  proof (induction as arbitrary: c bs)
    case Nil
    then show ?case by (cases bs) (auto split: if_splits)
  next
    case (Cons a as)
    then show ?case by (cases bs) (auto split: if_splits)
  qed
  then show "free_pool cfg s as \<Longrightarrow> free_pool cfg s bs \<Longrightarrow> as = bs"
    by (auto simp: free_pool_def split: option.splits)
qed

lemma task_chain_cong:
  assumes "\<And>x. x \<in> set recs \<Longrightarrow> mem s' x = mem s x" "mem s' t = mem s t"
  shows "task_chain cfg s' t recs = task_chain cfg s t recs"
proof (cases recs)
  case Nil
  then show ?thesis by (simp add: task_chain_def)
next
  case (Cons b bs)
  have "linked cfg (mem s') b bs = linked cfg (mem s) b bs"
    using assms(1) Cons by (intro linked_cong) simp
  then show ?thesis by (simp add: task_chain_def Cons assms(2))
qed

lemma reclaim_splices:
  assumes tc: "task_chain cfg s pxTCB recs" and d: "distinct recs" and z: "0 \<notin> set recs"
    and pool: "free_pool cfg s pool" and dj: "set recs \<inter> set pool = {}"
  shows "\<exists>s'. vPortReclaimCSA cfg s pxTCB = Some s' \<and> free_pool cfg s' (recs @ pool)
            \<and> (\<forall>x. x \<notin> set recs \<longrightarrow> mem s' x = mem s x)"
proof -
  define s' where "s' = s\<lparr>mem := (stripped (mem s) recs)(last recs := csfr s TRICORE_CPU_FCX),
                   csfr := (csfr s)(TRICORE_CPU_FCX := mem s pxTCB AND portCSA_FCX_MASK),
                   ie := True\<rparr>"
  have r: "vPortReclaimCSA cfg s pxTCB = Some s'"
    unfolding s'_def using tc d by (rule vPortReclaimCSA_explicit)
  from tc obtain b bs where recs: "recs = b # bs"
    and b: "portCSA_TO_ADDRESS cfg (mem s pxTCB AND portCSA_FCX_MASK) = b"
    and lk: "linked cfg (mem s) b bs"
    by (auto simp: task_chain_def split: list.splits)
  have f: "follow cfg (mem s') (csfr s' TRICORE_CPU_FCX) recs = Some (csfr s TRICORE_CPU_FCX)"
    using follow_spliced [OF lk d [unfolded recs] z [unfolded recs] b]
    by (simp add: s'_def recs del: last.simps)
  have "recs \<noteq> []" using recs by simp
  then have l: "last recs \<in> set recs" by (rule last_in_set)
  have frame: "\<And>x. x \<notin> set recs \<Longrightarrow> mem s' x = mem s x"
    using l by (auto simp: s'_def stripped_def dest: in_set_butlastD)
  have "follow cfg (mem s') (csfr s TRICORE_CPU_FCX) pool
          = follow cfg (mem s) (csfr s TRICORE_CPU_FCX) pool"
    using dj by (intro follow_cong frame) auto
  with pool f have "free_pool cfg s' (recs @ pool)"
    by (simp add: free_pool_def follow_append)
  with r frame show ?thesis by blast
qed

lemma tag_masked:
  "(portINITIAL_PCXI_UPPER_CONTEXT_WORD OR x) AND portCSA_FCX_MASK = x AND portCSA_FCX_MASK"
proof -
  have "portINITIAL_PCXI_UPPER_CONTEXT_WORD AND portCSA_FCX_MASK = 0"
    by (simp add: portINITIAL_PCXI_UPPER_CONTEXT_WORD_def portCSA_FCX_MASK_def)
  then show ?thesis by (simp add: bit.conj_disj_distrib2)
qed

lemma built_links:
  assumes "portCSA_TO_ADDRESS cfg (csfr s TRICORE_CPU_FCX) = lo"
    "portCSA_TO_ADDRESS cfg (mem s lo) = up" "csa_disjoint lo up"
  shows "mem (built cfg s a b c) lo = portINITIAL_PCXI_UPPER_CONTEXT_WORD OR portADDRESS_TO_CSA cfg up"
    and "mem (built cfg s a b c) up = 0"
  using init_records_lower [of 0 _ up lo] init_records_upper [OF assms(3), of 0]
  by (simp_all add: built_def Let_def assms(1,2))

lemma build_makes_chain:
  assumes lo: "portCSA_TO_ADDRESS cfg (csfr s TRICORE_CPU_FCX) = lo"
    and up: "portCSA_TO_ADDRESS cfg (mem s lo) = up" and dj: "csa_disjoint lo up"
    and nz: "up \<noteq> 0" and z: "portCSA_TO_ADDRESS cfg 0 = 0"
    and ok: "csa_codec_ok cfg lo" "csa_codec_ok cfg up"
    and t: "pxTCB \<noteq> lo" "pxTCB \<noteq> up"
  shows "task_chain cfg (store (built cfg s a b c) pxTCB 0 (portADDRESS_TO_CSA cfg lo)) pxTCB [lo, up]"
proof -
  have m: "portADDRESS_TO_CSA cfg up AND portCSA_FCX_MASK \<noteq> 0"
    using ok(2) nz z by (auto simp: csa_codec_ok_def)
  show ?thesis
    using t m ok
    by (simp add: task_chain_def store_0 built_links [OF lo up dj] tag_masked csa_codec_ok_def)
qed

lemma in_arena_words: "a \<in> set as \<Longrightarrow> a \<in> set (arena_words as)"
  using csa_self by (auto simp: arena_words_def)

lemma csa_words_arena: "a \<in> set as \<Longrightarrow> set (csa_words a) \<subseteq> set (arena_words as)"
  by (auto simp: arena_words_def)

text \<open>
  C6. From a Free Pool \<open>lo # up # rest\<close> of different records, pxPortInitialiseStack takes
  \<open>lo\<close> and \<open>up\<close> and leaves the pool \<open>rest\<close>; when the returned handle is stored in the
  saved-context field of a control block outside the records and that control block is
  passed to vPortReclaimCSA, the call returns and the Free Pool is \<open>lo # up # rest\<close> again:
  the same records, in the same order.
\<close>

theorem build_then_reclaim_roundtrip:
  assumes pool: "free_pool cfg s (lo # up # rest)" and dj: "records_disjoint (lo # up # rest)"
    and z: "portCSA_TO_ADDRESS cfg 0 = 0" and ok: "csa_codec_ok cfg lo" "csa_codec_ok cfg up"
    and t: "pxTCB \<notin> set (arena_words (lo # up # rest))"
  shows "\<exists>h s1 s2. pxPortInitialiseStack cfg s pxTopOfStack pxCode pvParameters = Inr (h, s1)
          \<and> free_pool cfg s1 rest
          \<and> vPortReclaimCSA cfg (store s1 pxTCB 0 h) pxTCB = Some s2
          \<and> free_pool cfg s2 (lo # up # rest)"
proof -
  define h where "h = portADDRESS_TO_CSA cfg lo"
  define s1 where "s1 = built cfg s pxTopOfStack pxCode pvParameters"
  define s1' where "s1' = store s1 pxTCB 0 h"
  have b: "pxPortInitialiseStack cfg s pxTopOfStack pxCode pvParameters = Inr (h, s1)"
    and p1: "free_pool cfg s1 rest"
    unfolding h_def s1_def using build_takes_two [OF pool dj] by simp_all
  from pool have lo: "portCSA_TO_ADDRESS cfg (csfr s TRICORE_CPU_FCX) = lo"
    and up: "portCSA_TO_ADDRESS cfg (mem s lo) = up"
    by (simp_all add: free_pool_Cons2)
  from free_pool_nonzero [OF pool] have nz: "lo \<noteq> 0" "up \<noteq> 0" by auto
  have d2: "csa_disjoint lo up" "lo \<noteq> up"
    using records_disjoint_head(1,4) [OF dj, of up] by simp_all
  have tn: "pxTCB \<noteq> lo" "pxTCB \<noteq> up" "pxTCB \<notin> set rest"
    using t in_arena_words [of _ "lo # up # rest"] by auto
  have tc: "task_chain cfg s1' pxTCB [lo, up]"
    unfolding s1'_def s1_def h_def
    using lo up d2(1) nz(2) z ok tn(1,2) by (rule build_makes_chain)
  have "free_pool cfg s1' rest = free_pool cfg s1 rest"
    using tn(3) by (intro free_pool_cong) (auto simp: s1'_def store_0)
  with p1 have p1': "free_pool cfg s1' rest" by simp
  have dr: "set [lo, up] \<inter> set rest = {}"
    using records_disjoint_distinct [OF dj] by auto
  from reclaim_splices [OF tc _ _ p1' dr] d2(2) nz obtain s2 where
    "vPortReclaimCSA cfg s1' pxTCB = Some s2" "free_pool cfg s2 ([lo, up] @ rest)"
    by auto
  with b p1 show ?thesis unfolding s1'_def by auto
qed

theorem build_then_reclaim_roundtrip_witness:
  "free_pool tc_cfg tc_state [0x70000040, 0x70000080, 0x700000C0, 0x70000100] \<and>
   (\<exists>h s1 s2. pxPortInitialiseStack tc_cfg tc_state 0x50001000 0x80002000 0x2A = Inr (h, s1)
          \<and> free_pool tc_cfg s1 [0x700000C0, 0x70000100]
          \<and> vPortReclaimCSA tc_cfg (store s1 0x1000 0 h) 0x1000 = Some s2
          \<and> free_pool tc_cfg s2 [0x70000040, 0x70000080, 0x700000C0, 0x70000100])"
proof -
  have z: "portCSA_TO_ADDRESS tc_cfg 0 = 0"
    by (simp add: tc_cfg_def tc_CSA_TO_ADDRESS_def)
  have ok: "csa_codec_ok tc_cfg 0x70000040" "csa_codec_ok tc_cfg 0x70000080"
    by (simp_all add: csa_codec_ok_def tc_cfg_def tc_CSA_TO_ADDRESS_def tc_ADDRESS_TO_CSA_def
        portCSA_FCX_MASK_def)
  have t: "0x1000 \<notin> set (arena_words [0x70000040, 0x70000080, 0x700000C0, 0x70000100])"
    by (simp add: arena_words_def csa_words_def portNUM_WORDS_IN_CSA_def upt_16 word_at_def)
  show ?thesis
    using tc_state_pool
      build_then_reclaim_roundtrip [OF tc_state_pool tc_arena_disjoint z ok t,
        of "0x50001000" "0x80002000" "0x2A"]
    by (rule conjI)
qed

section \<open>Sequences of allocations and releases\<close>

lemma task_chain_records:
  "task_chain cfg s t [lo, up] \<Longrightarrow> task_records cfg s t = [lo, up]"
  by (auto simp: task_chain_def task_records_def Let_def)

lemma other_task_preserved:
  assumes "task_chain cfg s t (task_records cfg s t)"
    and "mem s' t = mem s t" and "\<And>x. x \<in> set (task_records cfg s t) \<Longrightarrow> mem s' x = mem s x"
  shows "task_records cfg s' t = task_records cfg s t"
    and "task_chain cfg s' t (task_records cfg s' t)"
proof -
  show r: "task_records cfg s' t = task_records cfg s t"
    using assms(2,3) by (simp add: task_records_def Let_def)
  have "task_chain cfg s' t (task_records cfg s t) = task_chain cfg s t (task_records cfg s t)"
    using assms(2,3) by (intro task_chain_cong) auto
  with assms(1) r show "task_chain cfg s' t (task_records cfg s' t)" by simp
qed

lemma distinct_csa_words: "distinct (csa_words a)"
  by (auto simp: csa_words_def portNUM_WORDS_IN_CSA_def distinct_map inj_on_def word_at_inj)

lemma csa_words_inj: "csa_words a = csa_words b \<Longrightarrow> a = b"
proof -
  assume "csa_words a = csa_words b"
  then have "hd (csa_words a) = hd (csa_words b)" by simp
  then show "a = b"
    by (simp add: csa_words_def portNUM_WORDS_IN_CSA_def upt_16)
qed

lemma records_disjoint_iff:
  "records_disjoint as \<longleftrightarrow>
     distinct as \<and> (\<forall>a \<in> set as. \<forall>b \<in> set as. a \<noteq> b \<longrightarrow> csa_disjoint a b)"
proof (induction as)
  case Nil
  then show ?case by (simp add: records_disjoint_def)
next
  case (Cons a as)
  have "records_disjoint (a # as) \<longleftrightarrow>
          records_disjoint as \<and> (\<forall>b \<in> set as. csa_disjoint a b)"
    by (auto simp: records_disjoint_def csa_disjoint_def distinct_csa_words)
  moreover have "(\<forall>b \<in> set as. csa_disjoint a b) \<Longrightarrow> a \<notin> set as"
    using csa_self by (auto simp: csa_disjoint_def)
  ultimately show ?case
    using Cons.IH by (auto dest: csa_disjoint_sym)
qed

lemma records_disjoint_sub:
  "records_disjoint arena \<Longrightarrow> distinct as \<Longrightarrow> set as \<subseteq> set arena \<Longrightarrow> records_disjoint as"
  unfolding records_disjoint_iff by blast

lemma pool_inv_all:
  assumes "pool_inv cfg arena pool s live"
  shows "distinct (pool @ concat (map (task_records cfg s) live)) = distinct arena"
    and "set pool \<union> (\<Union>t \<in> set live. set (task_records cfg s t)) = set arena"
proof -
  from assms have m: "mset (pool @ concat (map (task_records cfg s) live)) = mset arena"
    by (simp add: pool_inv_def)
  show "distinct (pool @ concat (map (task_records cfg s) live)) = distinct arena"
    using m by (rule mset_eq_imp_distinct_iff)
  from mset_eq_setD [OF m]
  show "set pool \<union> (\<Union>t \<in> set live. set (task_records cfg s t)) = set arena"
    by simp
qed

lemma depleted_short_pool:
  assumes "free_pool cfg s pool" "length pool < 2"
  shows "csa_depleted cfg s"
proof (cases pool)
  case Nil
  with assms show ?thesis by (simp add: free_pool_def csa_depleted_def)
next
  case (Cons x xs)
  with assms have "xs = []" by simp
  with assms Cons show ?thesis by (auto simp: free_pool_def csa_depleted_def split: if_splits)
qed

lemma build_step_inv:
  assumes ok: "arena_ok cfg arena" and inv: "pool_inv cfg arena pool s live"
    and t: "t \<notin> set live" "t \<notin> set (arena_words arena)"
    and b: "pxPortInitialiseStack cfg s a b c = Inr (h, s1)"
  shows "\<exists>pool'. pool_inv cfg arena pool' (store s1 t 0 h) (t # live) \<and> length pool = length pool' + 2"
proof -
  from ok have rd: "records_disjoint arena" and z: "portCSA_TO_ADDRESS cfg 0 = 0"
    and codec: "\<And>a. a \<in> set arena \<Longrightarrow> csa_codec_ok cfg a"
    and tr: "svlcx_traps_on_depletion cfg"
    by (simp_all add: arena_ok_def)
  from inv have fp: "free_pool cfg s pool" and dl: "distinct live"
    and tasks: "\<And>u. u \<in> set live \<Longrightarrow> u \<notin> set (arena_words arena)"
               "\<And>u. u \<in> set live \<Longrightarrow> task_chain cfg s u (task_records cfg s u)"
    and m: "mset (pool @ concat (map (task_records cfg s) live)) = mset arena"
    by (simp_all add: pool_inv_def)
  have da: "distinct arena" using rd by (rule records_disjoint_distinct)
  have dall: "distinct (pool @ concat (map (task_records cfg s) live))"
    using pool_inv_all(1) [OF inv] da by simp
  have sall: "set pool \<union> (\<Union>u \<in> set live. set (task_records cfg s u)) = set arena"
    using pool_inv_all(2) [OF inv] .
  have "\<not> csa_depleted cfg s"
  proof
    assume "csa_depleted cfg s"
    with tr obtain e where "pxPortInitialiseStack cfg s a b c = Inl e"
      using pxPortInitialiseStack_traps by blast
    with b show False by simp
  qed
  with depleted_short_pool [OF fp] have "\<not> length pool < 2" by blast
  then have "\<exists>lo up rest. pool = lo # up # rest"
  proof (cases pool)
    case Nil
    then show ?thesis using \<open>\<not> length pool < 2\<close> by simp
  next
    case (Cons lo xs)
    then show ?thesis using \<open>\<not> length pool < 2\<close> by (cases xs) simp_all
  qed
  then obtain lo up rest where pool: "pool = lo # up # rest" by blast
  have sub: "set pool \<subseteq> set arena" using sall by blast
  have "distinct pool" using dall by (simp only: distinct_append)
  with rd have "records_disjoint pool" using sub by (rule records_disjoint_sub)
  then have dp: "records_disjoint (lo # up # rest)" by (simp only: pool)
  from build_takes_two [OF fp [unfolded pool] dp, of a b c] b
  have h: "h = portADDRESS_TO_CSA cfg lo" and s1: "s1 = built cfg s a b c"
    and fp1: "free_pool cfg s1 rest"
    by simp_all
  from fp pool have lo: "portCSA_TO_ADDRESS cfg (csfr s TRICORE_CPU_FCX) = lo"
    and up: "portCSA_TO_ADDRESS cfg (mem s lo) = up"
    by (simp_all add: free_pool_Cons2)
  from free_pool_nonzero [OF fp] pool have nz: "lo \<noteq> 0" "up \<noteq> 0" by auto
  have d2: "csa_disjoint lo up" "lo \<noteq> up"
    using records_disjoint_head(1,4) [OF dp, of up] by simp_all
  have ina: "lo \<in> set arena" "up \<in> set arena" "set rest \<subseteq> set arena"
    using sub pool by auto
  have "t \<notin> set arena" using t(2) in_arena_words by blast
  with ina have tn: "t \<noteq> lo" "t \<noteq> up" "t \<notin> set rest" by blast+
  define s' where "s' = store s1 t 0 h"
  have mem': "mem s' x = mem s x"
    if "x \<noteq> t" "x \<notin> set (csa_words lo)" "x \<notin> set (csa_words up)" for x
  proof -
    have "mem s' x = mem s1 x" using that(1) by (simp add: s'_def store_0)
    also have "\<dots> = mem s x"
      unfolding s1 by (rule built_frame) (simp_all add: lo up that)
    finally show ?thesis .
  qed
  have tc: "task_chain cfg s' t [lo, up]"
    unfolding s'_def s1 h
    using lo up d2(1) nz(2) z codec [OF ina(1)] codec [OF ina(2)] tn(1,2)
    by (rule build_makes_chain)
  have "free_pool cfg s' rest = free_pool cfg s1 rest"
    using tn(3) by (intro free_pool_cong) (auto simp: s'_def store_0)
  with fp1 have fp': "free_pool cfg s' rest" by simp
  have old: "task_records cfg s' u = task_records cfg s u
             \<and> task_chain cfg s' u (task_records cfg s' u)" if u: "u \<in> set live" for u
  proof -
    have ut: "u \<noteq> t" using u t(1) by auto
    have uw: "u \<notin> set (csa_words lo)" "u \<notin> set (csa_words up)"
      using tasks(1) [OF u] csa_words_arena [OF ina(1)] csa_words_arena [OF ina(2)] by auto
    have rec: "x \<noteq> t \<and> x \<notin> set (csa_words lo) \<and> x \<notin> set (csa_words up)"
      if x: "x \<in> set (task_records cfg s u)" for x
    proof -
      from x u have xa: "x \<in> set arena" using sall by blast
      from x u have "x \<in> set (concat (map (task_records cfg s) live))" by auto
      moreover from dall have "set pool \<inter> set (concat (map (task_records cfg s) live)) = {}"
        by (simp only: distinct_append) 
      ultimately have "x \<notin> set pool" by blast
      then have xl: "x \<noteq> lo" "x \<noteq> up" using pool by auto
      from rd xa ina(1) xl(1) have "csa_disjoint x lo"
        unfolding records_disjoint_iff by blast
      moreover from rd xa ina(2) xl(2) have "csa_disjoint x up"
        unfolding records_disjoint_iff by blast
      moreover have "x \<noteq> t" using xa t(2) in_arena_words by blast
      ultimately show ?thesis
        using csa_self [of x] unfolding csa_disjoint_def by blast
    qed
    from other_task_preserved [OF tasks(2) [OF u], of s'] mem' ut uw rec
    show ?thesis by blast
  qed
  have maps: "map (task_records cfg s') live = map (task_records cfg s) live"
    by (rule map_cong) (simp_all add: old)
  have m': "mset (rest @ concat (map (task_records cfg s') (t # live))) = mset arena"
    using m by (simp add: maps task_chain_records [OF tc] pool)
  have c3: "u \<notin> set (arena_words arena) \<and> task_chain cfg s' u (task_records cfg s' u)"
    if "u \<in> set (t # live)" for u
  proof (cases "u = t")
    case True
    then show ?thesis using t(2) tc by (simp add: task_chain_records [OF tc])
  next
    case False
    with that have "u \<in> set live" by simp
    then show ?thesis using tasks(1) old by blast
  qed
  have "distinct (t # live)" using dl t(1) by simp
  with fp' c3 m' have "pool_inv cfg arena rest s' (t # live)"
    unfolding pool_inv_def by blast
  then show ?thesis unfolding s'_def pool by auto
qed

lemma reclaim_step_inv:
  assumes ok: "arena_ok cfg arena" and inv: "pool_inv cfg arena pool s live"
    and t: "t \<in> set live"
  shows "\<exists>s' pool'. vPortReclaimCSA cfg s t = Some s'
            \<and> pool_inv cfg arena pool' s' (remove1 t live) \<and> length pool' = length pool + 2"
proof -
  let ?f = "task_records cfg s"
  from ok have rd: "records_disjoint arena" and z0: "0 \<notin> set arena"
    by (simp_all add: arena_ok_def)
  from inv have fp: "free_pool cfg s pool" and dl: "distinct live"
    and tasks: "\<And>u. u \<in> set live \<Longrightarrow> u \<notin> set (arena_words arena)"
               "\<And>u. u \<in> set live \<Longrightarrow> task_chain cfg s u (?f u)"
    and m: "mset (pool @ concat (map ?f live)) = mset arena"
    by (simp_all add: pool_inv_def)
  have da: "distinct arena" using rd by (rule records_disjoint_distinct)
  have dall: "distinct (pool @ concat (map ?f live))"
    using pool_inv_all(1) [OF inv] da by simp
  have sall: "set pool \<union> (\<Union>u \<in> set live. set (?f u)) = set arena"
    using pool_inv_all(2) [OF inv] .
  from t obtain xs ys where live: "live = xs @ t # ys"
    by (auto dest: split_list)
  from dl live have txy: "t \<notin> set xs" "t \<notin> set ys" and dxy: "distinct (xs @ ys)"
    by auto
  have rm: "remove1 t live = xs @ ys"
    using txy(1) by (simp add: live remove1_append)
  have dall': "distinct (pool @ concat (map ?f xs) @ ?f t @ concat (map ?f ys))"
    using dall by (simp add: live)
  then have dr: "distinct (?f t)" and rp: "set (?f t) \<inter> set pool = {}"
    and ro: "\<And>u. u \<in> set (xs @ ys) \<Longrightarrow> set (?f t) \<inter> set (?f u) = {}"
    by auto
  have ra: "set (?f t) \<subseteq> set arena" using sall t by blast
  with z0 have zr: "0 \<notin> set (?f t)" by blast
  from reclaim_splices [OF tasks(2) [OF t] dr zr fp rp] obtain s' where
    r: "vPortReclaimCSA cfg s t = Some s'" and fp': "free_pool cfg s' (?f t @ pool)"
    and frame: "\<And>x. x \<notin> set (?f t) \<Longrightarrow> mem s' x = mem s x"
    by blast
  have old: "task_records cfg s' u = ?f u \<and> task_chain cfg s' u (task_records cfg s' u)"
    if u: "u \<in> set (xs @ ys)" for u
  proof -
    from u have ul: "u \<in> set live" by (auto simp: live)
    have "u \<notin> set arena" using tasks(1) [OF ul] in_arena_words by blast
    with ra have "u \<notin> set (?f t)" by blast
    then have mu: "mem s' u = mem s u" by (rule frame)
    have mx: "mem s' x = mem s x" if "x \<in> set (?f u)" for x
      using ro [OF u] that by (intro frame) blast
    from other_task_preserved [OF tasks(2) [OF ul] mu mx] show ?thesis by blast
  qed
  have maps: "map (task_records cfg s') (xs @ ys) = map ?f (xs @ ys)"
    by (rule map_cong) (simp_all add: old)
  have m': "mset ((?f t @ pool) @ concat (map (task_records cfg s') (xs @ ys))) = mset arena"
    unfolding maps using m by (simp add: live ac_simps)
  have c3: "u \<notin> set (arena_words arena) \<and> task_chain cfg s' u (task_records cfg s' u)"
    if "u \<in> set (xs @ ys)" for u
    using that old [OF that] tasks(1) [of u] by (auto simp: live)
  from fp' dxy c3 m' have "pool_inv cfg arena (?f t @ pool) s' (xs @ ys)"
    unfolding pool_inv_def by blast
  moreover have "length (?f t @ pool) = length pool + 2"
    by (simp add: task_records_def Let_def)
  ultimately show ?thesis using r unfolding rm by blast
qed

lemma pool_step_inv:
  assumes ok: "arena_ok cfg arena" and inv: "pool_inv cfg arena pool s live"
    and step: "pool_step cfg arena p (s, live) = Inr (s', live')"
  shows "\<exists>pool'. pool_inv cfg arena pool' s' live'"
proof (cases p)
  case (Build t a b c)
  with step obtain h s1 where g: "t \<notin> set live" "t \<notin> set (arena_words arena)"
    and b: "pxPortInitialiseStack cfg s a b c = Inr (h, s1)"
    and e: "s' = store s1 t 0 h" "live' = t # live"
    by (auto split: if_splits sum.splits)
  from build_step_inv [OF ok inv g b] show ?thesis unfolding e by blast
next
  case (Reclaim t)
  with step have g: "t \<in> set live" and r: "vPortReclaimCSA cfg s t = Some s'"
    and e: "live' = remove1 t live"
    by (auto split: if_splits option.splits)
  from reclaim_step_inv [OF ok inv g] r show ?thesis unfolding e by auto
qed

lemma pool_run_inv:
  assumes ok: "arena_ok cfg arena"
  shows "pool_inv cfg arena pool s live \<Longrightarrow> pool_run cfg arena ps (s, live) = Inr (s', live')
           \<Longrightarrow> \<exists>pool'. pool_inv cfg arena pool' s' live'"
proof (induction ps arbitrary: pool s live)
  case Nil
  then show ?case by auto
next
  case (Cons p ps)
  from Cons.prems(2) obtain s1 live1 where
    st: "pool_step cfg arena p (s, live) = Inr (s1, live1)"
    and rn: "pool_run cfg arena ps (s1, live1) = Inr (s', live')"
    by (auto split: sum.splits)
  from pool_step_inv [OF ok Cons.prems(1) st] obtain pool1 where
    "pool_inv cfg arena pool1 s1 live1" by blast
  from Cons.IH [OF this rn] show ?case .
qed

lemma length_task_records: "length (concat (map (task_records cfg s) live)) = 2 * length live"
  by (induction live) (simp_all add: task_records_def Let_def)

lemma pool_inv_init:
  "free_pool cfg s0 arena \<Longrightarrow> pool_inv cfg arena arena s0 []"
  by (simp add: pool_inv_def)

text \<open>
  C7. Start from a Free Pool \<open>arena\<close> of N different records and no task, and apply any
  sequence of builds and reclaims that runs to its end. Then the Free Pool is a list
  \<open>pool\<close> of at most N records (N less two for each live task); every live task's
  saved-context field names its chain; no record occurs twice in the pool and the chains
  together, and these are exactly the records of the arena; and when the pool is empty (or
  holds one record only) pxPortInitialiseStack does not return a handle, for any arguments.
\<close>

theorem free_pool_invariant:
  assumes hw: "svlcx_traps_on_depletion cfg" and z: "portCSA_TO_ADDRESS cfg 0 = 0"
    and codec: "\<forall>a \<in> set arena. csa_codec_ok cfg a"
    and rd: "records_disjoint arena" and init: "free_pool cfg s0 arena"
    and run: "pool_run cfg arena ops (s0, []) = Inr (s, live)"
  shows "\<exists>pool. free_pool cfg s pool
          \<and> length pool \<le> length arena
          \<and> length pool + 2 * length live = length arena
          \<and> (\<forall>t \<in> set live. task_chain cfg s t (task_records cfg s t))
          \<and> distinct (pool @ concat (map (task_records cfg s) live))
          \<and> set (pool @ concat (map (task_records cfg s) live)) = set arena
          \<and> (length pool < 2 \<longrightarrow>
               (\<forall>pxTopOfStack pxCode pvParameters.
                  \<exists>t. pxPortInitialiseStack cfg s pxTopOfStack pxCode pvParameters = Inl t))"
proof -
  have ok: "arena_ok cfg arena"
    using hw z codec rd free_pool_nonzero [OF init] by (simp add: arena_ok_def)
  from pool_run_inv [OF ok pool_inv_init [OF init] run] obtain pool where
    inv: "pool_inv cfg arena pool s live" by blast
  then have fp: "free_pool cfg s pool"
    and tasks: "\<forall>t \<in> set live. task_chain cfg s t (task_records cfg s t)"
    and m: "mset (pool @ concat (map (task_records cfg s) live)) = mset arena"
    by (simp_all add: pool_inv_def)
  from m have "length (pool @ concat (map (task_records cfg s) live)) = length arena"
    by (rule mset_eq_length)
  then have len: "length pool + 2 * length live = length arena"
    by (simp add: length_task_records)
  have d: "distinct (pool @ concat (map (task_records cfg s) live))"
    using pool_inv_all(1) [OF inv] records_disjoint_distinct [OF rd] by simp
  have st: "set (pool @ concat (map (task_records cfg s) live)) = set arena"
    using m by (rule mset_eq_setD)
  have e: "\<exists>t. pxPortInitialiseStack cfg s a b c = Inl t" if "length pool < 2" for a b c
    using pxPortInitialiseStack_traps [OF hw depleted_short_pool [OF fp that]] by blast
  from fp len tasks d st e show ?thesis
    by (intro exI [of _ pool]) auto
qed

lemma tc_tcb_outside:
  "0x1000 \<notin> set (arena_words [0x70000040, 0x70000080, 0x700000C0, 0x70000100])"
  by (simp add: arena_words_def csa_words_def portNUM_WORDS_IN_CSA_def upt_16 word_at_def)

lemma tc_codec:
  "\<forall>a \<in> set [0x70000040, 0x70000080, 0x700000C0, 0x70000100]. csa_codec_ok tc_cfg a"
  by (simp add: csa_codec_ok_def tc_cfg_def tc_CSA_TO_ADDRESS_def tc_ADDRESS_TO_CSA_def
        portCSA_FCX_MASK_def)

lemma tc_null: "portCSA_TO_ADDRESS tc_cfg 0 = 0"
  by (simp add: tc_cfg_def tc_CSA_TO_ADDRESS_def)

theorem free_pool_invariant_witness:
  "\<exists>s live.
     pool_run tc_cfg [0x70000040, 0x70000080, 0x700000C0, 0x70000100]
       [Build 0x1000 0x50001000 0x80002000 0x2A, Reclaim 0x1000] (tc_state, []) = Inr (s, live)
     \<and> (\<exists>pool. free_pool tc_cfg s pool
          \<and> length pool \<le> length [0x70000040, 0x70000080, 0x700000C0, 0x70000100 :: word32]
          \<and> distinct (pool @ concat (map (task_records tc_cfg s) live))
          \<and> set (pool @ concat (map (task_records tc_cfg s) live))
               = set [0x70000040, 0x70000080, 0x700000C0, 0x70000100])"
proof -
  let ?arena = "[0x70000040, 0x70000080, 0x700000C0, 0x70000100 :: word32]"
  have ok: "arena_ok tc_cfg ?arena"
    using tc_svlcx_traps tc_null tc_codec tc_arena_disjoint free_pool_nonzero [OF tc_state_pool]
    by (simp add: arena_ok_def)
  from build_takes_two(1) [OF tc_state_pool tc_arena_disjoint, of "0x50001000" "0x80002000" "0x2A"]
  obtain h s1 where b: "pxPortInitialiseStack tc_cfg tc_state 0x50001000 0x80002000 0x2A = Inr (h, s1)"
    by blast
  have g: "(0x1000 :: word32) \<notin> set []" by simp
  from build_step_inv [OF ok pool_inv_init [OF tc_state_pool] g tc_tcb_outside b]
  obtain pool1 where i1: "pool_inv tc_cfg ?arena pool1 (store s1 0x1000 0 h) [0x1000]"
    by blast
  have st1: "pool_step tc_cfg ?arena (Build 0x1000 0x50001000 0x80002000 0x2A) (tc_state, [])
               = Inr (store s1 0x1000 0 h, [0x1000])"
    using tc_tcb_outside b by simp
  from reclaim_step_inv [OF ok i1, of "0x1000"] obtain s2 where
    r: "vPortReclaimCSA tc_cfg (store s1 0x1000 0 h) 0x1000 = Some s2"
    by auto
  have st2: "pool_step tc_cfg ?arena (Reclaim 0x1000) (store s1 0x1000 0 h, [0x1000])
               = Inr (s2, [])"
    using r by simp
  have run: "pool_run tc_cfg ?arena
       [Build 0x1000 0x50001000 0x80002000 0x2A, Reclaim 0x1000] (tc_state, []) = Inr (s2, [])"
    by (simp only: pool_run.simps st1 st2 sum.case)
  from free_pool_invariant [OF tc_svlcx_traps tc_null tc_codec tc_arena_disjoint tc_state_pool run]
    run
  show ?thesis by blast
qed

end
